theory Spec2Isabelle
  imports Complex_Main
begin

unbundle bit_operations_syntax

section \<open>Errors and array primitives\<close>

text \<open>
  Every exception the modelled Python can raise is a value: a fallible function returns
  \<open>error + 'a\<close>, with \<open>Inl\<close> for the exception.
\<close>

datatype error =
    IndexError
  | ValueError
  | UnboundLocalError
  | NotImplementedError
  | InvariantViolation

definition bind_err :: "error + 'a \<Rightarrow> ('a \<Rightarrow> error + 'b) \<Rightarrow> error + 'b" where
  "bind_err m f = (case m of Inl e \<Rightarrow> Inl e | Inr v \<Rightarrow> f v)"

text \<open>Python 2 \<open>xrange(start, stop)\<close> and \<open>xrange(start, stop, step)\<close> over Python integers.
  A zero step raises \<open>ValueError\<close>; the steps used in this module are never negative.\<close>

definition xrange :: "int \<Rightarrow> int \<Rightarrow> int list" where
  "xrange start stop = map (\<lambda>k. start + int k) [0..<nat (stop - start)]"

definition xrange_step :: "int \<Rightarrow> int \<Rightarrow> int \<Rightarrow> error + int list" where
  "xrange_step start stop step =
     (if step = 0 then Inl ValueError
      else Inr (map (\<lambda>k. start + int k * step) [0..<nat ((stop - start + step - 1) div step)]))"

text \<open>numpy integer indexing of a one-dimensional array: a negative index counts from the
  end, an index outside \<open>[-n, n)\<close> raises \<open>IndexError\<close>.\<close>

definition np_index_ok :: "nat \<Rightarrow> int \<Rightarrow> bool" where
  "np_index_ok n i = (- int n \<le> i \<and> i < int n)"

definition np_pos :: "nat \<Rightarrow> int \<Rightarrow> nat" where
  "np_pos n i = nat (if i < 0 then int n + i else i)"

text \<open>\<open>a[idx]\<close> for an index array \<open>idx\<close> of node ids (never negative here).\<close>

definition np_take :: "'a list \<Rightarrow> nat list \<Rightarrow> error + 'a list" where
  "np_take a idx =
     (if list_all (\<lambda>i. i < length a) idx then Inr (map (\<lambda>i. a ! i) idx) else Inl IndexError)"

text \<open>\<open>a.flat[idx] = vals\<close> (one value per index, assigned in order) and
  \<open>a.flat[idx] = v\<close> (a scalar).\<close>

definition flat_assign :: "'a list \<Rightarrow> int list \<Rightarrow> 'a list \<Rightarrow> error + 'a list" where
  "flat_assign a idx vals =
     (if length idx \<noteq> length vals then Inl ValueError
      else if \<not> list_all (np_index_ok (length a)) idx then Inl IndexError
      else Inr (fold (\<lambda>(i, v) b. b[np_pos (length a) i := v]) (zip idx vals) a))"

definition flat_fill :: "'a list \<Rightarrow> int list \<Rightarrow> 'a \<Rightarrow> error + 'a list" where
  "flat_fill a idx v =
     (if \<not> list_all (np_index_ok (length a)) idx then Inl IndexError
      else Inr (fold (\<lambda>i b. b[np_pos (length a) i := v]) idx a))"

text \<open>Elementwise binary operation on two one-dimensional arrays, with numpy's
  broadcasting of a length-one operand; any other length mismatch raises.\<close>

definition np_binop :: "('a \<Rightarrow> 'b \<Rightarrow> 'c) \<Rightarrow> 'a list \<Rightarrow> 'b list \<Rightarrow> error + 'c list" where
  "np_binop f xs ys =
     (if length xs = length ys then Inr (map2 f xs ys)
      else if length xs = 1 then Inr (map (f (hd xs)) ys)
      else if length ys = 1 then Inr (map (\<lambda>x. f x (hd ys)) xs)
      else Inl ValueError)"

text \<open>\<open>(idx, ) = np.where(mask)\<close>: the positions that hold \<open>True\<close>, ascending.\<close>

definition np_where :: "bool list \<Rightarrow> nat list" where
  "np_where flags = filter (\<lambda>i. flags ! i) [0..<length flags]"

section \<open>landlab/utils/structured\_grid.py\<close>

definition INTERIOR_NODE :: int where "INTERIOR_NODE = 0"
definition FIXED_VALUE_BOUNDARY :: int where "FIXED_VALUE_BOUNDARY = 1"
definition FIXED_GRADIENT_BOUNDARY :: int where "FIXED_GRADIENT_BOUNDARY = 2"
definition TRACKS_CELL_BOUNDARY :: int where "TRACKS_CELL_BOUNDARY = 3"
definition INACTIVE_BOUNDARY :: int where "INACTIVE_BOUNDARY = 4"

text \<open>A shape is \<open>(rows, columns)\<close> of nodes; numpy shapes are never negative.\<close>

type_synonym shape = "nat \<times> nat"

definition node_count :: "shape \<Rightarrow> nat" where
  "node_count shape = fst shape * snd shape"

definition interior_node_count :: "shape \<Rightarrow> int" where
  "interior_node_count shape = (int (fst shape) - 2) * (int (snd shape) - 2)"

definition link_count :: "shape \<Rightarrow> int" where
  "link_count shape =
     int (snd shape) * (int (fst shape) - 1) + int (fst shape) * (int (snd shape) - 1)"

definition top_index_iter :: "shape \<Rightarrow> int list" where
  "top_index_iter shape =
     xrange (int (snd shape) * (int (fst shape) - 1)) (int (fst shape) * int (snd shape))"

definition bottom_index_iter :: "shape \<Rightarrow> int list" where
  "bottom_index_iter shape = xrange 0 (int (snd shape))"

text \<open>\<open>left_right_iter(shape, *args)\<close>: the row range comes from zero to three optional
  arguments; with more, \<open>iter_rows\<close> is never bound. Each row yields its first and its last
  node.\<close>

definition left_right_iter :: "shape \<Rightarrow> int list \<Rightarrow> error + int list" where
  "left_right_iter shape args =
     bind_err
       (case args of
          [] \<Rightarrow> xrange_step 0 (int (fst shape)) 1
        | [a] \<Rightarrow> xrange_step 0 a 1
        | [a, b] \<Rightarrow> xrange_step a b 1
        | [a, b, c] \<Rightarrow> xrange_step a b c
        | _ \<Rightarrow> Inl UnboundLocalError)
       (\<lambda>iter_rows.
          Inr (concat (map (\<lambda>row. [row * int (snd shape),
                                     row * int (snd shape) + int (snd shape) - 1]) iter_rows)))"

definition boundary_iter :: "shape \<Rightarrow> error + int list" where
  "boundary_iter shape =
     bind_err (left_right_iter shape [1, int (fst shape) - 1])
       (\<lambda>lr. Inr (bottom_index_iter shape @ lr @ top_index_iter shape))"

definition boundary_nodes :: "shape \<Rightarrow> error + int list" where
  "boundary_nodes shape = boundary_iter shape"

definition interior_iter :: "shape \<Rightarrow> error + int list" where
  "interior_iter shape =
     (let interiors_per_row = int (snd shape) - 2 in
      bind_err
        (xrange_step (int (snd shape) + 1) (int (snd shape) * (int (fst shape) - 1))
           (int (snd shape)))
        (\<lambda>rows. Inr (concat (map (\<lambda>row. xrange row (row + interiors_per_row)) rows))))"

definition interior_nodes :: "shape \<Rightarrow> error + int list" where
  "interior_nodes shape = interior_iter shape"

text \<open>\<open>node_ids = np.arange(np.prod(shape)); node_ids.shape = shape\<close>: a two-dimensional
  array is the list of its rows; \<open>.flat\<close> is \<open>concat\<close>.\<close>

definition node_id_rows :: "shape \<Rightarrow> nat list list" where
  "node_id_rows shape =
     map (\<lambda>r. map (\<lambda>c. r * snd shape + c) [0..<snd shape]) [0..<fst shape]"

definition to_node_links :: "nat list list \<Rightarrow> nat list" where
  "to_node_links node_ids =
     (let vertical_links = drop 1 node_ids;
          horizontal_links = map (drop 1) node_ids
      in concat vertical_links @ concat horizontal_links)"

definition from_node_links :: "nat list list \<Rightarrow> nat list" where
  "from_node_links node_ids =
     (let vertical_links = butlast node_ids;
          horizontal_links = map butlast node_ids
      in concat vertical_links @ concat horizontal_links)"

definition node_link_index :: "shape \<Rightarrow> nat list \<times> nat list" where
  "node_link_index shape =
     (let node_ids = node_id_rows shape in (from_node_links node_ids, to_node_links node_ids))"

text \<open>\<open>active_links(shape, node_status_array, link_nodes=None)\<close>. The status array is
  passed explicitly; \<open>link_nodes\<close> is optional as in the source.\<close>

definition active_links :: "shape \<Rightarrow> int list \<Rightarrow> (nat list \<times> nat list) option \<Rightarrow> error + nat list" where
  "active_links shape node_status_array link_nodes =
     (let (link_from_node, link_to_node) =
            (case link_nodes of None \<Rightarrow> node_link_index shape | Some link_pair \<Rightarrow> link_pair)
      in bind_err (np_take node_status_array link_from_node) (\<lambda>from_node_status.
         bind_err (np_take node_status_array link_to_node) (\<lambda>to_node_status.
         bind_err (np_binop (\<and>) (map (\<lambda>s. s = INTERIOR_NODE) from_node_status)
                                 (map (\<lambda>s. \<not> (s = INACTIVE_BOUNDARY)) to_node_status)) (\<lambda>a.
         bind_err (np_binop (\<and>) (map (\<lambda>s. s = INTERIOR_NODE) to_node_status)
                                 (map (\<lambda>s. \<not> (s = INACTIVE_BOUNDARY)) from_node_status)) (\<lambda>b.
         bind_err (np_binop (\<or>) a b) (\<lambda>active. Inr (np_where active)))))))"

text \<open>\<open>np.empty(n)\<close>: \<open>n\<close> cells of arbitrary content. The content is the parameter
  \<open>uninit\<close> (cut or padded to \<open>n\<close> cells), so that nothing can be proved from it.\<close>

definition np_empty :: "int list \<Rightarrow> nat \<Rightarrow> int list" where
  "np_empty uninit n = take n (uninit @ replicate n 0)"

text \<open>\<open>node_index_with_halo(shape, halo_indices)\<close>: the node ids of the grid in a frame of
  \<open>halo_indices\<close>, as the flat (row-major) content of a \<open>(rows + 2) \<times> (columns + 2)\<close> array.\<close>

definition node_index_with_halo :: "int list \<Rightarrow> shape \<Rightarrow> int \<Rightarrow> error + int list" where
  "node_index_with_halo uninit shape halo_indices =
     (let shape_with_halo = (fst shape + 2, snd shape + 2);
          ids = np_empty uninit (fst shape_with_halo * snd shape_with_halo)
      in bind_err (interior_nodes shape_with_halo) (\<lambda>interiors.
         bind_err (boundary_nodes shape_with_halo) (\<lambda>boundaries.
         bind_err (flat_assign ids interiors (xrange 0 (interior_node_count shape_with_halo)))
           (\<lambda>ids. flat_fill ids boundaries halo_indices))))"

text \<open>\<open>ids[r0:r1, c0:c1].flat\<close> of a two-dimensional array with \<open>ncols\<close> columns given by
  its flat content (all bounds inside the array).\<close>

definition slice2 :: "'a list \<Rightarrow> nat \<Rightarrow> nat \<times> nat \<Rightarrow> nat \<times> nat \<Rightarrow> 'a list" where
  "slice2 flat ncols rs cs =
     concat (map (\<lambda>i. map (\<lambda>j. flat ! (i * ncols + j)) [fst cs..<snd cs]) [fst rs..<snd rs])"

text \<open>\<open>np.vstack((a, b, c, d)).T\<close> of four vectors of one length: row \<open>k\<close> is
  \<open>[a[k], b[k], c[k], d[k]]\<close>.\<close>

definition vstack4_T :: "'a list \<Rightarrow> 'a list \<Rightarrow> 'a list \<Rightarrow> 'a list \<Rightarrow> 'a list list" where
  "vstack4_T a b c d = map (\<lambda>k. [a ! k, b ! k, c ! k, d ! k]) [0..<length a]"

text \<open>\<open>diagonal_array(shape, out_of_bounds, contiguous)\<close>; \<open>contiguous\<close> only chooses the
  memory layout of the result and is left out.\<close>

definition diagonal_array :: "int list \<Rightarrow> shape \<Rightarrow> int \<Rightarrow> error + int list list" where
  "diagonal_array uninit shape out_of_bounds =
     bind_err (node_index_with_halo uninit shape out_of_bounds) (\<lambda>ids.
       let ncols = snd shape + 2 in
       Inr (vstack4_T
              (slice2 ids ncols (0, fst shape) (0, snd shape))
              (slice2 ids ncols (0, fst shape) (2, snd shape + 2))
              (slice2 ids ncols (2, fst shape + 2) (2, snd shape + 2))
              (slice2 ids ncols (2, fst shape + 2) (0, snd shape))))"

text \<open>\<open>diagonal_array_slow(shape, out_of_bounds)\<close>: the two nested loops over the interior
  rows and columns, each writing the four entries of one row of the table (the table starts
  as \<open>- np.ones\<close>; \<open>out_of_bounds\<close> is not read).\<close>

definition set_item2 :: "'a list list \<Rightarrow> nat \<Rightarrow> nat \<Rightarrow> 'a \<Rightarrow> 'a list list" where
  "set_item2 t i k v = t[i := (t ! i)[k := v]]"

definition diagonal_array_slow :: "shape \<Rightarrow> int \<Rightarrow> int list list" where
  "diagonal_array_slow shape out_of_bounds =
     (let nrows = fst shape; ncols = snd shape;
          ncells = fst shape * snd shape;
          diagonal_cells = replicate ncells [- 1, - 1, - 1, - 1 :: int]
      in fold (\<lambda>r t.
           fold (\<lambda>c t.
             let cell_id = r * ncols + c;
                 t = set_item2 t cell_id 2 (int cell_id - int ncols - 1);
                 t = set_item2 t cell_id 0 (int cell_id + int ncols + 1);
                 t = set_item2 t cell_id 3 (int cell_id - int ncols + 1);
                 t = set_item2 t cell_id 1 (int cell_id + int ncols - 1)
             in t) [1..<ncols - 1] t) [1..<nrows - 1] diagonal_cells)"

text \<open>The two tables in closed form, for the proofs about them. \<open>halo_interior C q\<close> is the
  place of node \<open>q\<close> of a grid of \<open>C\<close> columns in the flat array with halo, and
  \<open>halo_boundary R C\<close> lists the places of the frame in the order of \<open>boundary_iter\<close>;
  \<open>halo_ids\<close> is the array after the two assignments of \<open>node_index_with_halo\<close>.\<close>

definition halo_interior :: "nat \<Rightarrow> nat \<Rightarrow> nat" where
  "halo_interior C q = (q div C + 1) * (C + 2) + 1 + q mod C"

definition halo_boundary :: "nat \<Rightarrow> nat \<Rightarrow> nat list" where
  "halo_boundary R C =
     [0..<C + 2] @ concat (map (\<lambda>k. [(k + 1) * (C + 2), (k + 1) * (C + 2) + (C + 1)]) [0..<R])
     @ map (\<lambda>j. (R + 1) * (C + 2) + j) [0..<C + 2]"

definition halo_ids :: "int list \<Rightarrow> nat \<Rightarrow> nat \<Rightarrow> int \<Rightarrow> int list" where
  "halo_ids uninit R C h =
     fold (\<lambda>i b. b[i := h]) (halo_boundary R C)
       (fold (\<lambda>q b. b[halo_interior C q := int q]) [0..<R * C]
          (np_empty uninit ((R + 2) * (C + 2))))"

text \<open>\<open>slow_cell\<close> is the body of the inner loop of \<open>diagonal_array_slow\<close>, \<open>slow_row\<close> the
  row it leaves at \<open>cell_id\<close>, and \<open>interior_cells\<close> the cells the two loops visit, in their
  order.\<close>

definition slow_cell :: "nat \<Rightarrow> int list list \<Rightarrow> nat \<Rightarrow> int list list" where
  "slow_cell ncols t cell_id =
     (let t = set_item2 t cell_id 2 (int cell_id - int ncols - 1);
          t = set_item2 t cell_id 0 (int cell_id + int ncols + 1);
          t = set_item2 t cell_id 3 (int cell_id - int ncols + 1);
          t = set_item2 t cell_id 1 (int cell_id + int ncols - 1)
      in t)"

definition slow_row :: "nat \<Rightarrow> nat \<Rightarrow> int list" where
  "slow_row ncols cell_id =
     [int cell_id + int ncols + 1, int cell_id + int ncols - 1,
      int cell_id - int ncols - 1, int cell_id - int ncols + 1]"

definition interior_cells :: "nat \<Rightarrow> nat \<Rightarrow> nat list" where
  "interior_cells R C = concat (map (\<lambda>r. map (\<lambda>c. r * C + c) [1..<C - 1]) [1..<R - 1])"

text \<open>The vocabulary of the specification for these tables: \<open>node_at shape out_of_bounds i j\<close>
  is the id of the node in row \<open>i\<close> and column \<open>j\<close>, and \<open>out_of_bounds\<close> when that place is
  not in the grid; a node is interior when it is not on the edge of the grid.\<close>

definition node_at :: "shape \<Rightarrow> int \<Rightarrow> int \<Rightarrow> int \<Rightarrow> int" where
  "node_at shape out_of_bounds i j =
     (if 0 \<le> i \<and> i < int (fst shape) \<and> 0 \<le> j \<and> j < int (snd shape)
      then i * int (snd shape) + j else out_of_bounds)"

definition is_interior :: "shape \<Rightarrow> nat \<Rightarrow> nat \<Rightarrow> bool" where
  "is_interior shape r c \<longleftrightarrow> 1 \<le> r \<and> r + 1 < fst shape \<and> 1 \<le> c \<and> c + 1 < snd shape"

text \<open>\<open>has_boundary_neighbor\<close>. Python parses
  \<open>out_of_bounds in neighbors | out_of_bounds in diagonals\<close> with \<open>|\<close> binding tighter than
  \<open>in\<close>, as the chained comparison
  \<open>out_of_bounds in (neighbors | out_of_bounds) in diagonals\<close>, that is
  \<open>(out_of_bounds in m) and (m in diagonals)\<close> for \<open>m = neighbors | out_of_bounds\<close>:
  \<open>|\<close> is the elementwise bitwise or, \<open>x in a\<close> is \<open>(a == x).any()\<close>.\<close>

definition np_contains :: "int list \<Rightarrow> int \<Rightarrow> bool" where
  "np_contains a x = list_ex (\<lambda>y. y = x) a"

definition np_contains_array :: "int list \<Rightarrow> int list \<Rightarrow> error + bool" where
  "np_contains_array a x = bind_err (np_binop (=) a x) (\<lambda>eqs. Inr (list_ex (\<lambda>b. b) eqs))"

definition has_boundary_neighbor :: "int list \<Rightarrow> int list \<Rightarrow> int \<Rightarrow> error + bool" where
  "has_boundary_neighbor neighbors diagonals out_of_bounds =
     (let m = map (\<lambda>x. x OR out_of_bounds) neighbors
      in if np_contains m out_of_bounds then np_contains_array diagonals m else Inr False)"

text \<open>\<open>has_boundary_neighbor_slow\<close>: each \<open>while\<close> loop is \<open>scan4\<close>, which returns the final
  counter; reading past the end of the array raises \<open>IndexError\<close>.\<close>

function scan4 :: "int list \<Rightarrow> int \<Rightarrow> nat \<Rightarrow> error + nat" where
  "scan4 a out_of_bounds i =
     (if i < 4 then
        (if i < length a then
           (if a ! i \<noteq> out_of_bounds then scan4 a out_of_bounds (i + 1) else Inr i)
         else Inl IndexError)
      else Inr i)"
  by pat_completeness auto
termination
  by (relation "measure (\<lambda>(a, out_of_bounds, i). 4 - i)") auto

definition has_boundary_neighbor_slow :: "int list \<Rightarrow> int list \<Rightarrow> int \<Rightarrow> error + bool" where
  "has_boundary_neighbor_slow neighbors diagonals out_of_bounds =
     bind_err (scan4 neighbors out_of_bounds 0) (\<lambda>i.
       if i < 4 then Inr True
       else bind_err (scan4 diagonals out_of_bounds 0) (\<lambda>r.
         if r < 4 then Inr True else Inr False))"

section \<open>The grid and the flow director (flow\_director\_d8.py)\<close>

text \<open>
  Modelled from the spec: the grid object is an external collaborator (spec sections 3 and
  6); its classes are absent from the sources. The record holds what \<open>FlowDirectorD8\<close> reads of
  it: the class of the grid, the status code of every node, the boundary-version counter
  \<open>bc_set_code\<close>, and the table of all D8 links (orthogonal links first, then diagonal
  ones) with the tail node, head node and length of each.
\<close>

datatype grid_class = RasterModelGrid | VoronoiDelaunayGrid

record model_grid =
  grid_class :: grid_class
  grid_shape :: shape
  status_at_node :: "int list"
  bc_set_code :: int
  d8_tail :: "nat list"
  d8_head :: "nat list"
  d8_length :: "real list"

text \<open>The node fields of the grid (\<open>grid['node'][name]\<close>): the surface that is routed and
  the four arrays that \<open>direct_flow\<close> writes. Elevations and slopes are Python floats; they are
  modelled as real numbers, so rounding is not modelled.\<close>

record at_node =
  topographic_elevation :: "real list"
  flow_receiver_node :: "nat list"
  topographic_steepest_slope :: "real list"
  flow_link_to_receiver_node :: "int list"
  flow_sink_flag :: "bool list"

text \<open>The attributes of a \<open>FlowDirectorD8\<close> object: \<open>method\<close>, \<open>_is_Voroni\<close>,
  \<open>_bc_set_code\<close> (\<open>None\<close> while no version is recorded), \<open>_active_links\<close>,
  \<open>_activelink_tail\<close>, \<open>_activelink_head\<close> and \<open>sink\<close>.\<close>

record flow_director =
  fd_method :: string
  fd_is_Voroni :: bool
  fd_bc_set_code :: "int option"
  fd_active_links :: "nat list"
  fd_activelink_tail :: "nat list"
  fd_activelink_head :: "nat list"
  fd_sink :: "nat list"

definition new_object :: flow_director where
  "new_object = \<lparr>fd_method = [], fd_is_Voroni = False, fd_bc_set_code = None,
     fd_active_links = [], fd_activelink_tail = [], fd_activelink_head = [], fd_sink = []\<rparr>"

text \<open>
  The functions that \<open>flow_director_d8.py\<close> calls and whose code is absent from the sources
  are parameters of the model: the constructor of the base class \<open>_FlowDirectorToOne\<close>, the
  grid's \<open>_d8_active_links()\<close> and \<open>_calculate_gradients_at_d8_active_links(elevs)\<close>, and
  \<open>flow_direction_DN.flow_directions\<close>. Each may raise.
\<close>

type_synonym routing = "nat list \<times> real list \<times> nat list \<times> int list"

record collaborators =
  base_init :: "flow_director \<Rightarrow> model_grid \<Rightarrow> error + flow_director"
  d8_active_links_of :: "model_grid \<Rightarrow> error + (nat list \<times> nat list \<times> nat list)"
  gradients_at_d8_active_links :: "model_grid \<Rightarrow> real list \<Rightarrow> error + real list"
  flow_directions_of ::
    "real list \<Rightarrow> nat list \<Rightarrow> nat list \<Rightarrow> nat list \<Rightarrow> real list \<Rightarrow> nat list \<Rightarrow> error + routing"

text \<open>\<open>FlowDirectorD8.updated_boundary_conditions\<close>.\<close>

definition updated_boundary_conditions ::
    "collaborators \<Rightarrow> model_grid \<Rightarrow> flow_director \<Rightarrow> error + flow_director" where
  "updated_boundary_conditions X grid self =
     bind_err (d8_active_links_of X grid) (\<lambda>(dal, d8t, d8h).
       Inr (self\<lparr>fd_active_links := dal, fd_activelink_tail := d8t,
                 fd_activelink_head := d8h\<rparr>))"

text \<open>\<open>FlowDirectorD8.__init__\<close>: \<open>method\<close> is set, the base class is initialised, a
  Voronoi grid is refused, and the active links are derived.\<close>

definition FlowDirectorD8_init :: "collaborators \<Rightarrow> model_grid \<Rightarrow> error + flow_director" where
  "FlowDirectorD8_init X grid =
     bind_err (base_init X (new_object\<lparr>fd_method := ''D8''\<rparr>) grid) (\<lambda>self.
       let self = self\<lparr>fd_is_Voroni := (grid_class grid = VoronoiDelaunayGrid)\<rparr>
       in if fd_is_Voroni self then Inl NotImplementedError
          else updated_boundary_conditions X grid self)"

text \<open>\<open>field[:] = values\<close> on a node field: the values must have the field's length (or
  be a single value, which is broadcast).\<close>

definition assign_all :: "'a list \<Rightarrow> 'a list \<Rightarrow> error + 'a list" where
  "assign_all field vals =
     (if length vals = length field then Inr vals
      else if length vals = 1 then Inr (replicate (length field) (hd vals))
      else Inl ValueError)"

text \<open>\<open>FlowDirectorD8.direct_flow\<close> (and \<open>run_one_step\<close>, which only calls it). It returns
  the node fields and the object as it leaves them, and the receiver array.\<close>

definition direct_flow ::
    "collaborators \<Rightarrow> model_grid \<Rightarrow> at_node \<Rightarrow> flow_director
       \<Rightarrow> error + (at_node \<times> flow_director \<times> nat list)" where
  "direct_flow X grid node self =
     bind_err
       (if fd_bc_set_code self \<noteq> Some (bc_set_code grid)
        then bind_err (updated_boundary_conditions X grid self)
               (\<lambda>self. Inr (self\<lparr>fd_bc_set_code := Some (bc_set_code grid)\<rparr>))
        else Inr self) (\<lambda>self.
     let elevs = topographic_elevation node in
     bind_err (gradients_at_d8_active_links X grid elevs) (\<lambda>gradients.
     let link_slope = map uminus gradients;
         baselevel_nodes =
           np_where (map (\<lambda>s. s = FIXED_VALUE_BOUNDARY \<or> s = FIXED_GRADIENT_BOUNDARY)
                       (status_at_node grid))
     in
     bind_err (flow_directions_of X elevs (fd_active_links self) (fd_activelink_tail self)
                 (fd_activelink_head self) link_slope baselevel_nodes)
       (\<lambda>(receiver, steepest_slope, sink, recvr_link).
     let self = self\<lparr>fd_sink := sink\<rparr> in
     bind_err (assign_all (flow_receiver_node node) receiver) (\<lambda>f1.
     bind_err (assign_all (topographic_steepest_slope node) steepest_slope) (\<lambda>f2.
     bind_err (assign_all (flow_link_to_receiver_node node) recvr_link) (\<lambda>f3.
     bind_err (assign_all (flow_sink_flag node) (replicate (length receiver) False)) (\<lambda>f4.
     bind_err (flat_fill f4 (map int sink) True) (\<lambda>f4.
       Inr (node\<lparr>flow_receiver_node := f1, topographic_steepest_slope := f2,
                 flow_link_to_receiver_node := f3, flow_sink_flag := f4\<rparr>,
            self, receiver)))))))))"

definition run_one_step ::
    "collaborators \<Rightarrow> model_grid \<Rightarrow> at_node \<Rightarrow> flow_director \<Rightarrow> error + (at_node \<times> flow_director)" where
  "run_one_step X grid node self =
     bind_err (direct_flow X grid node self) (\<lambda>(node, self, receiver). Inr (node, self))"

section \<open>The collaborators, from the spec\<close>

text \<open>
  Modelled from the spec: the constructor of \<open>_FlowDirectorToOne\<close> is absent. Section 4.4:
  the initial state is STALE, so no boundary version is recorded.
\<close>

definition spec_base_init :: "flow_director \<Rightarrow> model_grid \<Rightarrow> error + flow_director" where
  "spec_base_init self grid = Inr (self\<lparr>fd_bc_set_code := None\<rparr>)"

text \<open>
  Modelled from the spec: the grid's \<open>_d8_active_links()\<close> is absent. Section 4.2
  (BoundaryClassifier): every D8 link is classified from the current node statuses by the
  rule that \<open>active_links\<close> of \<open>structured_grid.py\<close> implements; the result is the ids of the
  active links with their tail and head nodes.
\<close>

definition spec_d8_active_links :: "model_grid \<Rightarrow> error + (nat list \<times> nat list \<times> nat list)" where
  "spec_d8_active_links grid =
     bind_err (active_links (grid_shape grid) (status_at_node grid)
                 (Some (d8_tail grid, d8_head grid))) (\<lambda>dal.
       Inr (dal, map (\<lambda>i. d8_tail grid ! i) dal, map (\<lambda>i. d8_head grid ! i) dal))"

text \<open>
  Modelled from the spec: \<open>_calculate_gradients_at_d8_active_links\<close> is absent. Sections 2
  and 4.3 (GradientEvaluator): for each active link the elevation difference per unit
  length, positive uphill from tail to head.
\<close>

definition spec_gradients :: "model_grid \<Rightarrow> real list \<Rightarrow> error + real list" where
  "spec_gradients grid elevs =
     bind_err (spec_d8_active_links grid) (\<lambda>(dal, d8t, d8h).
     bind_err (np_take elevs d8h) (\<lambda>zh.
     bind_err (np_take elevs d8t) (\<lambda>zt.
       Inr (map (\<lambda>k. (zh ! k - zt ! k) / d8_length grid ! (dal ! k)) [0..<length dal]))))"

text \<open>
  Modelled from the spec: \<open>flow_direction_DN.flow_directions\<close> is absent. Section 4.3
  (FlowRouter), per node \<open>n\<close>: the candidates are the active links on which \<open>n\<close> is the
  strictly higher endpoint, in the order of the active-link list; \<open>link_slope\<close> is the value
  \<open>direct_flow\<close> passes, the negated gradient, so the drop from \<open>n\<close> is \<open>link_slope\<close> when \<open>n\<close>
  is the tail and \<open>- link_slope\<close> when \<open>n\<close> is the head; the steepest candidate wins, the
  first one on a tie; a node without a candidate is its own receiver with slope 0 and link
  \<open>-1\<close> (the sentinel the doctest of \<open>FlowDirectorD8\<close> shows), and by step 4 it is on the
  sink list unless it is one of the base-level nodes; a node with a candidate is never on
  the sink list (step 5). Node ids outside the elevation array, or arrays of different
  lengths, are the invariant violation of sections 4.3 and 7.
\<close>

type_synonym candidate = "real \<times> nat \<times> nat"

definition outgoing_of :: "real list \<Rightarrow> nat \<Rightarrow> nat \<times> nat \<times> nat \<times> real \<Rightarrow> candidate list" where
  "outgoing_of elev n = (\<lambda>(l, t, h, s).
     if t = n \<and> elev ! h < elev ! t then [(s, h, l)]
     else if h = n \<and> elev ! t < elev ! h then [(- s, t, l)]
     else [])"

definition candidates :: "real list \<Rightarrow> (nat \<times> nat \<times> nat \<times> real) list \<Rightarrow> nat \<Rightarrow> candidate list" where
  "candidates elev links n = concat (map (outgoing_of elev n) links)"

fun steepest :: "candidate \<Rightarrow> candidate list \<Rightarrow> candidate" where
  "steepest best [] = best"
| "steepest best (c # cs) = steepest (if fst best < fst c then c else best) cs"

definition route_node ::
    "real list \<Rightarrow> (nat \<times> nat \<times> nat \<times> real) list \<Rightarrow> nat \<Rightarrow> nat \<times> real \<times> int" where
  "route_node elev links n =
     (case candidates elev links n of
        [] \<Rightarrow> (n, 0, - 1)
      | c # cs \<Rightarrow> (case steepest c cs of (s, m, l) \<Rightarrow> (m, s, int l)))"

definition flow_directions ::
    "real list \<Rightarrow> nat list \<Rightarrow> nat list \<Rightarrow> nat list \<Rightarrow> real list \<Rightarrow> nat list \<Rightarrow> error + routing" where
  "flow_directions elev active_link_ids tail_node head_node link_slope baselevel_nodes =
     (if length tail_node \<noteq> length active_link_ids \<or> length head_node \<noteq> length active_link_ids
         \<or> length link_slope \<noteq> length active_link_ids
         \<or> \<not> list_all (\<lambda>t. t < length elev) tail_node
         \<or> \<not> list_all (\<lambda>h. h < length elev) head_node
      then Inl InvariantViolation
      else
        let num_nodes = length elev;
            links = zip active_link_ids (zip tail_node (zip head_node link_slope));
            routed = map (route_node elev links) [0..<num_nodes];
            receiver = map fst routed;
            steepest_slope = map (\<lambda>x. fst (snd x)) routed;
            receiver_link = map (\<lambda>x. snd (snd x)) routed;
            sink = filter (\<lambda>n. candidates elev links n = [] \<and> n \<notin> set baselevel_nodes)
                     [0..<num_nodes]
        in Inr (receiver, steepest_slope, sink, receiver_link))"

definition landlab :: collaborators where
  "landlab = \<lparr>base_init = spec_base_init, d8_active_links_of = spec_d8_active_links,
     gradients_at_d8_active_links = spec_gradients, flow_directions_of = flow_directions\<rparr>"

text \<open>
  Modelled from the spec: \<open>RasterModelGrid(shape, spacing=(1, 1))\<close> is absent. Its
  orthogonal links are those of \<open>node_link_index\<close> (length 1); its diagonal links follow,
  two per cell corner in row-major order (from the lower-left node up to the right, then
  from the lower-right node up to the left). The length of a diagonal link is a parameter;
  with unit spacing it is \<open>sqrt 2\<close> (section 3).
\<close>

definition diagonal_links :: "shape \<Rightarrow> (nat \<times> nat) list" where
  "diagonal_links shape =
     concat (map (\<lambda>r. concat (map (\<lambda>c.
        [(r * snd shape + c, (r + 1) * snd shape + c + 1),
         (r * snd shape + c + 1, (r + 1) * snd shape + c)]) [0..<snd shape - 1]))
       [0..<fst shape - 1])"

definition raster_model_grid :: "shape \<Rightarrow> real \<Rightarrow> int list \<Rightarrow> model_grid" where
  "raster_model_grid shape diagonal_length status =
     \<lparr>grid_class = RasterModelGrid, grid_shape = shape, status_at_node = status,
      bc_set_code = 0,
      d8_tail = fst (node_link_index shape) @ map fst (diagonal_links shape),
      d8_head = snd (node_link_index shape) @ map snd (diagonal_links shape),
      d8_length = replicate (length (fst (node_link_index shape))) 1
                  @ replicate (length (diagonal_links shape)) diagonal_length\<rparr>"

text \<open>A grid is well formed when its link table has one tail, head and positive length per
  link, and every link joins two different nodes of the grid; the node fields fit when each
  has one entry per node.\<close>

definition wf_grid :: "model_grid \<Rightarrow> bool" where
  "wf_grid grid =
     (length (d8_head grid) = length (d8_tail grid) \<and>
      length (d8_length grid) = length (d8_tail grid) \<and>
      list_all (\<lambda>t. t < length (status_at_node grid)) (d8_tail grid) \<and>
      list_all (\<lambda>h. h < length (status_at_node grid)) (d8_head grid) \<and>
      list_all (\<lambda>(t, h). t \<noteq> h) (zip (d8_tail grid) (d8_head grid)) \<and>
      list_all (\<lambda>x. 0 < x) (d8_length grid))"

definition fields_fit :: "model_grid \<Rightarrow> at_node \<Rightarrow> bool" where
  "fields_fit grid node =
     (length (topographic_elevation node) = length (status_at_node grid) \<and>
      length (flow_receiver_node node) = length (status_at_node grid) \<and>
      length (topographic_steepest_slope node) = length (status_at_node grid) \<and>
      length (flow_link_to_receiver_node node) = length (status_at_node grid) \<and>
      length (flow_sink_flag node) = length (status_at_node grid))"

text \<open>The object is in step with the grid when the links it holds are those of the
  statuses of the version it has recorded (nothing is asked of an object that has recorded
  another version: \<open>direct_flow\<close> derives its links anew).\<close>

definition in_step :: "model_grid \<Rightarrow> flow_director \<Rightarrow> bool" where
  "in_step grid self =
     (fd_bc_set_code self \<noteq> Some (bc_set_code grid) \<or>
      spec_d8_active_links grid =
        Inr (fd_active_links self, fd_activelink_tail self, fd_activelink_head self))"

text \<open>What the claims speak of: whether link \<open>i\<close> is active under the current statuses, the
  far end of link \<open>i\<close> seen from node \<open>n\<close>, the drop per unit length from \<open>n\<close> along \<open>i\<close>, and the
  active links on which \<open>n\<close> is the strictly higher endpoint.\<close>

definition link_is_active :: "model_grid \<Rightarrow> nat \<Rightarrow> bool" where
  "link_is_active grid i =
     (let st = status_at_node grid; t = d8_tail grid ! i; h = d8_head grid ! i
      in (st ! t = INTERIOR_NODE \<and> st ! h \<noteq> INACTIVE_BOUNDARY) \<or>
         (st ! h = INTERIOR_NODE \<and> st ! t \<noteq> INACTIVE_BOUNDARY))"

definition other_end :: "model_grid \<Rightarrow> nat \<Rightarrow> nat \<Rightarrow> nat" where
  "other_end grid i n = (if d8_tail grid ! i = n then d8_head grid ! i else d8_tail grid ! i)"

definition drop_along :: "model_grid \<Rightarrow> real list \<Rightarrow> nat \<Rightarrow> nat \<Rightarrow> real" where
  "drop_along grid elev n i = (elev ! n - elev ! other_end grid i n) / d8_length grid ! i"

definition outgoing_links :: "model_grid \<Rightarrow> real list \<Rightarrow> nat \<Rightarrow> nat list" where
  "outgoing_links grid elev n =
     filter (\<lambda>i. link_is_active grid i \<and>
                 ((d8_tail grid ! i = n \<and> elev ! (d8_head grid ! i) < elev ! n) \<or>
                  (d8_head grid ! i = n \<and> elev ! (d8_tail grid ! i) < elev ! n)))
       [0..<length (d8_tail grid)]"

text \<open>The scenario of the doctest of \<open>FlowDirectorD8\<close>: a 3 by 3 grid with unit spacing and
  elevation \<open>x + y\<close>. After \<open>set_closed_boundaries_at_grid_edges(True, True, True, False)\<close> the
  nodes 3, 5, 6, 7 and 8 are closed and the bottom nodes 0, 1 and 2 keep their fixed value
  (node 0 must be open: the doctest drains node 4 into it).\<close>

definition doctest_grid :: model_grid where
  "doctest_grid = raster_model_grid (3, 3) (sqrt 2) [1, 1, 1, 4, 0, 4, 4, 4, 4]"

definition doctest_node :: at_node where
  "doctest_node = \<lparr>topographic_elevation = [0, 1, 2, 1, 2, 3, 2, 3, 4],
     flow_receiver_node = replicate 9 0, topographic_steepest_slope = replicate 9 0,
     flow_link_to_receiver_node = replicate 9 0, flow_sink_flag = replicate 9 False\<rparr>"

text \<open>Names for what \<open>direct_flow\<close> computes with these collaborators on a well-formed
  grid: the ids of the active links, the rows (link id, tail, head, \<open>link_slope\<close>) that the
  router receives, the triple (receiver, slope, link) routed at every node, the base-level
  nodes \<open>direct_flow\<close> finds and passes to the router, the sink list the router returns, and
  the node fields after the four arrays are written.\<close>

definition active_ids :: "model_grid \<Rightarrow> nat list" where
  "active_ids grid = filter (link_is_active grid) [0..<length (d8_tail grid)]"

definition link_rows :: "model_grid \<Rightarrow> real list \<Rightarrow> (nat \<times> nat \<times> nat \<times> real) list" where
  "link_rows grid elev =
     map (\<lambda>i. (i, d8_tail grid ! i, d8_head grid ! i,
               - ((elev ! (d8_head grid ! i) - elev ! (d8_tail grid ! i)) / d8_length grid ! i)))
       (active_ids grid)"

definition routed :: "model_grid \<Rightarrow> real list \<Rightarrow> (nat \<times> real \<times> int) list" where
  "routed grid elev = map (route_node elev (link_rows grid elev)) [0..<length elev]"

definition baselevel_nodes_of :: "model_grid \<Rightarrow> nat list" where
  "baselevel_nodes_of grid =
     np_where (map (\<lambda>s. s = FIXED_VALUE_BOUNDARY \<or> s = FIXED_GRADIENT_BOUNDARY)
                 (status_at_node grid))"

definition sink_nodes :: "model_grid \<Rightarrow> real list \<Rightarrow> nat list" where
  "sink_nodes grid elev =
     filter (\<lambda>n. candidates elev (link_rows grid elev) n = [] \<and> n \<notin> set (baselevel_nodes_of grid))
       [0..<length elev]"

definition routed_node :: "model_grid \<Rightarrow> at_node \<Rightarrow> at_node" where
  "routed_node grid node =
     node\<lparr>flow_receiver_node := map fst (routed grid (topographic_elevation node)),
          topographic_steepest_slope := map (\<lambda>x. fst (snd x)) (routed grid (topographic_elevation node)),
          flow_link_to_receiver_node := map (\<lambda>x. snd (snd x)) (routed grid (topographic_elevation node)),
          flow_sink_flag := map (\<lambda>n. n \<in> set (sink_nodes grid (topographic_elevation node)))
                              [0..<length (topographic_elevation node)]\<rparr>"

text \<open>The node fields and the object after routing the doctest grid once. The receivers,
  slopes and links are the values the doctest prints. The nodes 0, 1 and 2 of the open side
  are base-level nodes and so not on the sink list of section 4.3.\<close>

definition doctest_node_routed :: at_node where
  "doctest_node_routed = \<lparr>topographic_elevation = [0, 1, 2, 1, 2, 3, 2, 3, 4],
     flow_receiver_node = [0, 1, 2, 3, 0, 5, 6, 7, 8],
     topographic_steepest_slope = [0, 0, 0, 0, sqrt 2, 0, 0, 0, 0],
     flow_link_to_receiver_node = [- 1, - 1, - 1, - 1, 12, - 1, - 1, - 1, - 1],
     flow_sink_flag = [False, False, False, True, False, True, True, True, True]\<rparr>"

definition doctest_object_routed :: flow_director where
  "doctest_object_routed = \<lparr>fd_method = [], fd_is_Voroni = False, fd_bc_set_code = Some 0,
     fd_active_links = [1, 12, 15], fd_activelink_tail = [1, 0, 2],
     fd_activelink_head = [4, 4, 4], fd_sink = [3, 5, 6, 7, 8]\<rparr>"


text \<open>
  Modelled from the spec: the boundary-condition operations of the grid are external
  (section 3): they change node statuses and nothing else, and the version counter
  changes exactly when they do.
\<close>

definition set_status_at_nodes :: "model_grid \<Rightarrow> nat list \<Rightarrow> int \<Rightarrow> model_grid" where
  "set_status_at_nodes grid nodes code =
     grid\<lparr>status_at_node := fold (\<lambda>n st. st[n := code]) nodes (status_at_node grid),
          bc_set_code := bc_set_code grid + 1\<rparr>"


text \<open>The doctest grid after node 0 is closed, and the node fields and the object after the
  next routing of it.\<close>

definition closed_corner_grid :: model_grid where
  "closed_corner_grid = set_status_at_nodes doctest_grid [0] INACTIVE_BOUNDARY"

definition rerouted_node :: at_node where
  "rerouted_node = \<lparr>topographic_elevation = [0, 1, 2, 1, 2, 3, 2, 3, 4],
     flow_receiver_node = [0, 1, 2, 3, 1, 5, 6, 7, 8],
     topographic_steepest_slope = [0, 0, 0, 0, 1, 0, 0, 0, 0],
     flow_link_to_receiver_node = [- 1, - 1, - 1, - 1, 1, - 1, - 1, - 1, - 1],
     flow_sink_flag = [True, False, False, True, False, True, True, True, True]\<rparr>"

definition rerouted_object :: flow_director where
  "rerouted_object = \<lparr>fd_method = [], fd_is_Voroni = False, fd_bc_set_code = Some 1,
     fd_active_links = [1, 15], fd_activelink_tail = [1, 2],
     fd_activelink_head = [4, 4], fd_sink = [0, 3, 5, 6, 7, 8]\<rparr>"

text \<open>A grid of the irregular class (its tables do not matter: the constructor refuses it
  before it reads them).\<close>

definition voronoi_grid :: model_grid where
  "voronoi_grid = doctest_grid\<lparr>grid_class := VoronoiDelaunayGrid\<rparr>"

section \<open>Active links (structured\_grid.active\_links)\<close>

lemma row_bound: "r < R \<Longrightarrow> x < C + r * C \<Longrightarrow> x < R * (C::nat)"
proof -
  assume a: "r < R" "x < C + r * C"
  then have "x < (r + 1) * C" by simp
  also have "\<dots> \<le> R * C" using a by (intro mult_le_mono1) simp
  finally show ?thesis .
qed

lemma row_bound': "r < R - Suc 0 \<Longrightarrow> x < C + r * C \<Longrightarrow> x < R * (C::nat)"
  by (rule row_bound [of r]) simp_all

lemma butlast_upt0: "butlast [0..<n] = [0..<n - 1]"
  by (cases n) simp_all

lemma from_node_links_rows:
  "from_node_links (node_id_rows (R, C)) =
     concat (map (\<lambda>r. map (\<lambda>c. r * C + c) [0..<C]) [0..<R - 1]) @
     concat (map (\<lambda>r. map (\<lambda>c. r * C + c) [0..<C - 1]) [0..<R])"
  by (simp add: from_node_links_def node_id_rows_def map_butlast [symmetric] butlast_upt0 o_def)

lemma to_node_links_rows:
  "to_node_links (node_id_rows (R, C)) =
     concat (map (\<lambda>r. map (\<lambda>c. r * C + c) [0..<C]) [1..<R]) @
     concat (map (\<lambda>r. map (\<lambda>c. r * C + c) [1..<C]) [0..<R])"
  by (simp add: to_node_links_def node_id_rows_def drop_map o_def)

lemma length_from_node_links:
  "length (from_node_links (node_id_rows (R, C))) = (R - 1) * C + R * (C - 1)"
  by (simp add: from_node_links_rows length_concat o_def sum_list_triv)

lemma length_to_node_links:
  "length (to_node_links (node_id_rows (R, C))) = (R - 1) * C + R * (C - 1)"
  by (simp add: to_node_links_rows length_concat o_def sum_list_triv)

lemma from_node_links_bound:
  "x \<in> set (from_node_links (node_id_rows (R, C))) \<Longrightarrow> x < R * C"
  by (auto simp: from_node_links_rows intro: row_bound row_bound')

lemma to_node_links_bound:
  "x \<in> set (to_node_links (node_id_rows (R, C))) \<Longrightarrow> x < R * C"
  by (auto simp: to_node_links_rows intro: row_bound)

lemma np_take_Inr:
  "\<forall>i\<in>set idx. i < length a \<Longrightarrow> np_take a idx = Inr (map (\<lambda>i. a ! i) idx)"
  by (simp add: np_take_def list_all_iff)

text \<open>With link tables of one length that point into the status array, the result is the
  ascending list of the link ids that pass the test of the source.\<close>

lemma active_links_given:
  assumes "length lf = length lt"
    and "\<forall>i\<in>set lf. i < length st" and "\<forall>i\<in>set lt. i < length st"
  shows "active_links shape st (Some (lf, lt)) =
     Inr (filter (\<lambda>i. (st ! (lf ! i) = INTERIOR_NODE \<and> st ! (lt ! i) \<noteq> INACTIVE_BOUNDARY) \<or>
                       (st ! (lt ! i) = INTERIOR_NODE \<and> st ! (lf ! i) \<noteq> INACTIVE_BOUNDARY))
            [0..<length lf])"
  using assms
  by (auto simp: active_links_def bind_err_def np_take_Inr np_binop_def np_where_def
      intro!: filter_cong)

lemma active_links_default:
  "active_links shape st None = active_links shape st (Some (node_link_index shape))"
  by (simp add: active_links_def)

lemma node_link_index_eq:
  "node_link_index (R, C) =
     (from_node_links (node_id_rows (R, C)), to_node_links (node_id_rows (R, C)))"
  by (simp add: node_link_index_def Let_def)

text \<open>
  Claim C2. For every grid shape and every status array with one entry per node,
  \<open>active_links\<close> returns (without raising) a list that holds link \<open>i\<close> exactly when \<open>i\<close> is a
  link of the grid and (its tail is INTERIOR and its head is not INACTIVE) or (its head is
  INTERIOR and its tail is not INACTIVE). In particular a link with two non-interior
  endpoints (two closed ones included) is never in the list.
\<close>

theorem active_links_iff:
  assumes "length node_status_array = node_count shape"
  shows "\<exists>al. active_links shape node_status_array None = Inr al \<and>
    (\<forall>i. i \<in> set al \<longleftrightarrow>
       i < length (fst (node_link_index shape)) \<and>
       (let tail = fst (node_link_index shape) ! i;
            head = snd (node_link_index shape) ! i
        in (node_status_array ! tail = INTERIOR_NODE \<and>
              node_status_array ! head \<noteq> INACTIVE_BOUNDARY) \<or>
           (node_status_array ! head = INTERIOR_NODE \<and>
              node_status_array ! tail \<noteq> INACTIVE_BOUNDARY))) \<and>
    (\<forall>i. node_status_array ! (fst (node_link_index shape) ! i) \<noteq> INTERIOR_NODE \<and>
         node_status_array ! (snd (node_link_index shape) ! i) \<noteq> INTERIOR_NODE
         \<longrightarrow> i \<notin> set al)"
proof -
  obtain R C where shape: "shape = (R, C)" by (cases shape)
  let ?lf = "from_node_links (node_id_rows (R, C))"
  let ?lt = "to_node_links (node_id_rows (R, C))"
  have nli: "node_link_index shape = (?lf, ?lt)"
    by (simp add: node_link_index_eq shape)
  have len: "length ?lf = length ?lt"
    by (simp add: length_from_node_links length_to_node_links)
  have n: "length node_status_array = R * C"
    using assms by (simp add: node_count_def shape)
  have bf: "\<forall>i\<in>set ?lf. i < length node_status_array"
    using from_node_links_bound n by auto
  have bt: "\<forall>i\<in>set ?lt. i < length node_status_array"
    using to_node_links_bound n by auto
  show ?thesis
    unfolding active_links_default nli active_links_given [OF len bf bt]
    by (simp add: Let_def)
qed

text \<open>The doctest of the source: a 3 by 4 grid whose boundary nodes have a fixed value.
  Link 5 (node 5 to node 9) is active, link 0 (node 0 to node 4) is not.\<close>

theorem active_links_iff_witness:
  "length [1, 1, 1, 1, 1, 0, 0, 1, 1, 1, 1, 1 :: int] = node_count (3, 4) \<and>
   (\<exists>al. active_links (3, 4) [1, 1, 1, 1, 1, 0, 0, 1, 1, 1, 1, 1] None = Inr al \<and>
      5 \<in> set al \<and> 0 \<notin> set al)"
proof -
  have len: "length [1, 1, 1, 1, 1, 0, 0, 1, 1, 1, 1, 1 :: int] = node_count (3, 4)"
    by (simp add: node_count_def)
  have nli: "node_link_index (3, 4) =
      ([0, 1, 2, 3, 4, 5, 6, 7, 0, 1, 2, 4, 5, 6, 8, 9, 10],
       [4, 5, 6, 7, 8, 9, 10, 11, 1, 2, 3, 5, 6, 7, 9, 10, 11])"
    by code_simp
  from active_links_iff [OF len] obtain al where
    al: "active_links (3, 4) [1, 1, 1, 1, 1, 0, 0, 1, 1, 1, 1, 1] None = Inr al"
    and iff: "\<And>i. i \<in> set al \<longleftrightarrow>
       i < length (fst (node_link_index (3, 4))) \<and>
       (let tail = fst (node_link_index (3, 4)) ! i;
            head = snd (node_link_index (3, 4)) ! i
        in ([1, 1, 1, 1, 1, 0, 0, 1, 1, 1, 1, 1 :: int] ! tail = INTERIOR_NODE \<and>
              [1, 1, 1, 1, 1, 0, 0, 1, 1, 1, 1, 1 :: int] ! head \<noteq> INACTIVE_BOUNDARY) \<or>
           ([1, 1, 1, 1, 1, 0, 0, 1, 1, 1, 1, 1 :: int] ! head = INTERIOR_NODE \<and>
              [1, 1, 1, 1, 1, 0, 0, 1, 1, 1, 1, 1 :: int] ! tail \<noteq> INACTIVE_BOUNDARY))"
    by blast
  have "5 \<in> set al"
    unfolding iff nli by (simp add: INTERIOR_NODE_def INACTIVE_BOUNDARY_def)
  moreover have "0 \<notin> set al"
    unfolding iff nli by (simp add: INTERIOR_NODE_def INACTIVE_BOUNDARY_def)
  ultimately show ?thesis using len al by blast
qed

section \<open>has\_boundary\_neighbor and has\_boundary\_neighbor\_slow\<close>

lemma scan4_list:
  "scan4 [p, q, r, s] x 0 =
     Inr (if p = x then 0 else if q = x then 1 else if r = x then 2 else if s = x then 3 else 4)"
  by (simp add: scan4.simps [of _ _ 0] scan4.simps [of _ _ 1] scan4.simps [of _ _ 2]
      scan4.simps [of _ _ 3] scan4.simps [of _ _ 4])

text \<open>The slow version answers what its name says: whether the sentinel occurs among the
  four neighbors or the four diagonals.\<close>

lemma has_boundary_neighbor_slow_eq:
  assumes "length neighbors = 4" and "length diagonals = 4"
  shows "has_boundary_neighbor_slow neighbors diagonals out_of_bounds =
           Inr (out_of_bounds \<in> set neighbors \<or> out_of_bounds \<in> set diagonals)"
proof -
  obtain p q r s where n: "neighbors = [p, q, r, s]"
    using assms(1) by (auto simp: length_Suc_conv numeral_eq_Suc)
  obtain p' q' r' s' where d: "diagonals = [p', q', r', s']"
    using assms(2) by (auto simp: length_Suc_conv numeral_eq_Suc)
  show ?thesis
    unfolding n d has_boundary_neighbor_slow_def bind_err_def scan4_list
    by auto
qed

text \<open>The fast version does not. With the sentinel \<open>-1\<close> every entry of
  \<open>neighbors | out_of_bounds\<close> is \<open>-1\<close>, so the neighbors are never looked at: the answer is
  whether \<open>-1\<close> occurs among the diagonals.\<close>

lemma has_boundary_neighbor_minus_one:
  assumes "length neighbors = length diagonals" and "neighbors \<noteq> []"
  shows "has_boundary_neighbor neighbors diagonals (- 1) = Inr (- 1 \<in> set diagonals)"
proof -
  let ?m = "replicate (length diagonals) (- 1 :: int)"
  have m: "map (\<lambda>x. x OR (- 1 :: int)) neighbors = ?m"
    using assms by (simp add: map_replicate_const)
  have c: "np_contains ?m (- 1)"
    using assms by (cases diagonals) (simp_all add: np_contains_def)
  have "list_ex (\<lambda>b. b) (map2 (=) diagonals ?m) \<longleftrightarrow> - 1 \<in> set diagonals"
    by (induction diagonals) auto
  then have e: "np_contains_array diagonals ?m = Inr (- 1 \<in> set diagonals)"
    by (simp add: np_contains_array_def np_binop_def bind_err_def)
  show ?thesis
    unfolding has_boundary_neighbor_def m Let_def using c e by simp
qed

text \<open>
  Claim C9 (for every two arrays of four entries and every sentinel,
  \<open>has_boundary_neighbor\<close> returns what \<open>has_boundary_neighbor_slow\<close> returns) fails on the
  code. For the neighbors \<open>[-1, 0, 0, 0]\<close>, the diagonals \<open>[1, 1, 1, 1]\<close> and the sentinel
  \<open>-1\<close> the sentinel occurs among the neighbors: the slow function returns \<open>True\<close> and the
  fast one \<open>False\<close>. The same happens with the default sentinel, the largest 64-bit integer.
\<close>

theorem has_boundary_neighbor_differs: "has_boundary_neighbor [- 1, 0, 0, 0] [1, 1, 1, 1] (- 1) = Inr False \<and>
   has_boundary_neighbor_slow [- 1, 0, 0, 0] [1, 1, 1, 1] (- 1) = Inr True"
  by (simp add: has_boundary_neighbor_minus_one has_boundary_neighbor_slow_eq)

lemma has_boundary_neighbor_differs_default_sentinel: "has_boundary_neighbor [9223372036854775807, 1, 2, 5] [0, 2, 7, 8] 9223372036854775807 = Inr False \<and>
   has_boundary_neighbor_slow [9223372036854775807, 1, 2, 5] [0, 2, 7, 8] 9223372036854775807 = Inr True"
  by (simp add: has_boundary_neighbor_def np_contains_def np_contains_array_def
        np_binop_def bind_err_def has_boundary_neighbor_slow_eq)

section \<open>direct\_flow: the two paths\<close>

lemma assign_all_length: "assign_all f v = Inr f' \<Longrightarrow> length f' = length f"
  by (auto simp: assign_all_def split: if_splits)

lemma assign_all_again: "assign_all f v = Inr f' \<Longrightarrow> assign_all f' v = Inr f'"
  by (auto simp: assign_all_def split: if_splits)

lemma flat_fill_length: "flat_fill a idx v = Inr b \<Longrightarrow> length b = length a"
proof -
  have "length (fold (\<lambda>i b. b[f i := v]) idx a) = length a" for f
    by (induction idx arbitrary: a) simp_all
  then show "flat_fill a idx v = Inr b \<Longrightarrow> length b = length a"
    by (auto simp: flat_fill_def split: if_splits)
qed

lemma assign_all_same_length:
  "length f1 = length f2 \<Longrightarrow> assign_all f1 v = assign_all f2 v"
  by (simp add: assign_all_def)

text \<open>When the recorded version is the grid's, \<open>direct_flow\<close> routes with the links it
  holds; otherwise it first asks the grid for the active links and records the version.\<close>

lemma direct_flow_fresh:
  assumes "fd_bc_set_code self = Some (bc_set_code grid)"
  shows "direct_flow X grid node self =
     bind_err (gradients_at_d8_active_links X grid (topographic_elevation node)) (\<lambda>gradients.
     bind_err (flow_directions_of X (topographic_elevation node) (fd_active_links self)
                 (fd_activelink_tail self) (fd_activelink_head self) (map uminus gradients)
                 (np_where (map (\<lambda>s. s = FIXED_VALUE_BOUNDARY \<or> s = FIXED_GRADIENT_BOUNDARY)
                       (status_at_node grid))))
       (\<lambda>(receiver, steepest_slope, sink, recvr_link).
     bind_err (assign_all (flow_receiver_node node) receiver) (\<lambda>f1.
     bind_err (assign_all (topographic_steepest_slope node) steepest_slope) (\<lambda>f2.
     bind_err (assign_all (flow_link_to_receiver_node node) recvr_link) (\<lambda>f3.
     bind_err (assign_all (flow_sink_flag node) (replicate (length receiver) False)) (\<lambda>f4.
     bind_err (flat_fill f4 (map int sink) True) (\<lambda>f4.
       Inr (node\<lparr>flow_receiver_node := f1, topographic_steepest_slope := f2,
                 flow_link_to_receiver_node := f3, flow_sink_flag := f4\<rparr>,
            self\<lparr>fd_sink := sink\<rparr>, receiver))))))))"
  using assms by (simp add: direct_flow_def bind_err_def Let_def)

lemma direct_flow_stale:
  assumes "fd_bc_set_code self \<noteq> Some (bc_set_code grid)"
  shows "direct_flow X grid node self =
     bind_err (d8_active_links_of X grid) (\<lambda>(dal, d8t, d8h).
       direct_flow X grid node
         (self\<lparr>fd_active_links := dal, fd_activelink_tail := d8t, fd_activelink_head := d8h,
               fd_bc_set_code := Some (bc_set_code grid)\<rparr>))"
  using assms
  by (simp add: direct_flow_def [of X grid node self] updated_boundary_conditions_def bind_err_def
      direct_flow_fresh Let_def split: sum.splits prod.splits)

lemma direct_flow_records_version:
  assumes "direct_flow X grid node self = Inr (node', self', r)"
  shows "fd_bc_set_code self' = Some (bc_set_code grid)"
proof (cases "fd_bc_set_code self = Some (bc_set_code grid)")
  case True
  then show ?thesis
    using assms
    by (auto simp: direct_flow_fresh bind_err_def split: sum.splits prod.splits)
next
  case False
  then show ?thesis
    using assms
    by (auto simp: direct_flow_stale [OF False] direct_flow_fresh bind_err_def
        split: sum.splits prod.splits)
qed

lemma direct_flow_fresh_again:
  assumes fresh: "fd_bc_set_code self = Some (bc_set_code grid)"
    and run: "direct_flow X grid node self = Inr (node', self', r)"
  shows "direct_flow X grid node' self' = Inr (node', self', r)"
proof -
  from run obtain gradients receiver steepest_slope sink recvr_link f1 f2 f3 f4 f5 where
    g: "gradients_at_d8_active_links X grid (topographic_elevation node) = Inr gradients"
    and fdir: "flow_directions_of X (topographic_elevation node) (fd_active_links self)
                 (fd_activelink_tail self) (fd_activelink_head self) (map uminus gradients)
                 (np_where (map (\<lambda>s. s = FIXED_VALUE_BOUNDARY \<or> s = FIXED_GRADIENT_BOUNDARY)
                       (status_at_node grid))) = Inr (receiver, steepest_slope, sink, recvr_link)"
    and a1: "assign_all (flow_receiver_node node) receiver = Inr f1"
    and a2: "assign_all (topographic_steepest_slope node) steepest_slope = Inr f2"
    and a3: "assign_all (flow_link_to_receiver_node node) recvr_link = Inr f3"
    and a4: "assign_all (flow_sink_flag node) (replicate (length receiver) False) = Inr f4"
    and a5: "flat_fill f4 (map int sink) True = Inr f5"
    and node': "node' = node\<lparr>flow_receiver_node := f1, topographic_steepest_slope := f2,
                 flow_link_to_receiver_node := f3, flow_sink_flag := f5\<rparr>"
    and self': "self' = self\<lparr>fd_sink := sink\<rparr>"
    and r: "r = receiver"
    unfolding direct_flow_fresh [OF fresh]
    by (auto simp: bind_err_def split: sum.splits prod.splits)
  have fresh': "fd_bc_set_code self' = Some (bc_set_code grid)"
    using fresh self' by simp
  have len5: "length f5 = length (flow_sink_flag node)"
    using flat_fill_length [OF a5] assign_all_length [OF a4] by simp
  have a4': "assign_all f5 (replicate (length receiver) False) = Inr f4"
    using a4 assign_all_same_length [OF len5] by simp
  show ?thesis
    unfolding direct_flow_fresh [OF fresh']
    by (simp add: node' self' r g fdir bind_err_def assign_all_again [OF a1]
        assign_all_again [OF a2] assign_all_again [OF a3] a4' a5)
qed

text \<open>
  Claim C8. For every grid, every elevation field and every boundary configuration, and
  whatever the collaborators compute: when an invocation of \<open>direct_flow\<close> returns, invoking
  it again on the state it left, with the grid (statuses, version, links) and the elevations
  unchanged, returns again, with the same node fields (the four output arrays among them),
  the same object and the same receiver array. \<open>run_one_step\<close> only calls \<open>direct_flow\<close>.
\<close>

theorem direct_flow_twice:
  assumes "direct_flow X grid node self = Inr (node1, self1, receiver1)"
  shows "direct_flow X grid node1 self1 = Inr (node1, self1, receiver1)"
proof (cases "fd_bc_set_code self = Some (bc_set_code grid)")
  case True
  then show ?thesis using assms by (rule direct_flow_fresh_again)
next
  case False
  from assms obtain dal d8t d8h where
    run: "direct_flow X grid node
         (self\<lparr>fd_active_links := dal, fd_activelink_tail := d8t, fd_activelink_head := d8h,
               fd_bc_set_code := Some (bc_set_code grid)\<rparr>) = Inr (node1, self1, receiver1)"
    unfolding direct_flow_stale [OF False]
    by (auto simp: bind_err_def split: sum.splits prod.splits)
  show ?thesis
    by (rule direct_flow_fresh_again [OF _ run]) simp
qed

text \<open>
  Claim C6. At the start of a routing invocation, if the version the object has recorded is
  not the grid's, the routing is the one with the active links that the grid derives now
  and with that version recorded: it is the same whatever links the object held, and when
  it returns the object holds the links just derived and the grid's version. A mutation of
  the node statuses advances the version, so an object that had recorded the version before
  the mutation is stale after it.
\<close>

theorem stale_links_are_rederived:
  "(fd_bc_set_code self \<noteq> Some (bc_set_code grid) \<longrightarrow>
      direct_flow X grid node self =
        bind_err (d8_active_links_of X grid) (\<lambda>(dal, d8t, d8h).
          direct_flow X grid node
            (self\<lparr>fd_active_links := dal, fd_activelink_tail := d8t, fd_activelink_head := d8h,
                  fd_bc_set_code := Some (bc_set_code grid)\<rparr>)) \<and>
      (\<forall>links tails heads.
         direct_flow X grid node
           (self\<lparr>fd_active_links := links, fd_activelink_tail := tails,
                 fd_activelink_head := heads\<rparr>) = direct_flow X grid node self) \<and>
      (\<forall>node' self' receiver.
         direct_flow X grid node self = Inr (node', self', receiver) \<longrightarrow>
           d8_active_links_of X grid =
             Inr (fd_active_links self', fd_activelink_tail self', fd_activelink_head self') \<and>
           fd_bc_set_code self' = Some (bc_set_code grid))) \<and>
   (fd_bc_set_code self = Some (bc_set_code grid) \<longrightarrow>
      fd_bc_set_code self \<noteq> Some (bc_set_code (set_status_at_nodes grid nodes code)))"
proof (intro conjI impI allI)
  assume stale: "fd_bc_set_code self \<noteq> Some (bc_set_code grid)"
  show "direct_flow X grid node self =
        bind_err (d8_active_links_of X grid) (\<lambda>(dal, d8t, d8h).
          direct_flow X grid node
            (self\<lparr>fd_active_links := dal, fd_activelink_tail := d8t, fd_activelink_head := d8h,
                  fd_bc_set_code := Some (bc_set_code grid)\<rparr>))"
    by (rule direct_flow_stale [OF stale])
next
  fix links tails heads
  assume stale: "fd_bc_set_code self \<noteq> Some (bc_set_code grid)"
  then have stale': "fd_bc_set_code (self\<lparr>fd_active_links := links, fd_activelink_tail := tails,
                 fd_activelink_head := heads\<rparr>) \<noteq> Some (bc_set_code grid)"
    by simp
  show "direct_flow X grid node
           (self\<lparr>fd_active_links := links, fd_activelink_tail := tails,
                 fd_activelink_head := heads\<rparr>) = direct_flow X grid node self"
    unfolding direct_flow_stale [OF stale] direct_flow_stale [OF stale'] by simp
next
  fix node' self' receiver
  assume stale: "fd_bc_set_code self \<noteq> Some (bc_set_code grid)"
    and run: "direct_flow X grid node self = Inr (node', self', receiver)"
  from run obtain dal d8t d8h where
    d: "d8_active_links_of X grid = Inr (dal, d8t, d8h)"
    and run': "direct_flow X grid node
            (self\<lparr>fd_active_links := dal, fd_activelink_tail := d8t, fd_activelink_head := d8h,
                  fd_bc_set_code := Some (bc_set_code grid)\<rparr>) = Inr (node', self', receiver)"
    unfolding direct_flow_stale [OF stale]
    by (auto simp: bind_err_def split: sum.splits prod.splits)
  have "fd_active_links self' = dal \<and> fd_activelink_tail self' = d8t \<and> fd_activelink_head self' = d8h"
    using run'
    by (auto simp: direct_flow_fresh bind_err_def split: sum.splits prod.splits)
  then show "d8_active_links_of X grid =
             Inr (fd_active_links self', fd_activelink_tail self', fd_activelink_head self')"
    using d by simp
  show "fd_bc_set_code self' = Some (bc_set_code grid)"
    by (rule direct_flow_records_version [OF run])
next
  assume "fd_bc_set_code self = Some (bc_set_code grid)"
  then show "fd_bc_set_code self \<noteq> Some (bc_set_code (set_status_at_nodes grid nodes code))"
    by (simp add: set_status_at_nodes_def)
qed

text \<open>
  Claim C7. Constructing a \<open>FlowDirectorD8\<close> on a grid of the Voronoi class returns an
  error and no object, so no routing can follow; when the constructor of the base class
  returned, the error is \<open>NotImplementedError\<close>. On a raster grid the constructor adds no
  failure of its own: it returns the object of the base class with the active links the
  grid derives.
\<close>

theorem FlowDirectorD8_init_by_grid_class:
  "(grid_class grid = VoronoiDelaunayGrid \<longrightarrow>
      (\<exists>e. FlowDirectorD8_init X grid = Inl e) \<and>
      (\<forall>self. base_init X (new_object\<lparr>fd_method := ''D8''\<rparr>) grid = Inr self \<longrightarrow>
         FlowDirectorD8_init X grid = Inl NotImplementedError)) \<and>
   (grid_class grid = RasterModelGrid \<longrightarrow>
      (\<forall>self dal d8t d8h.
         base_init X (new_object\<lparr>fd_method := ''D8''\<rparr>) grid = Inr self \<longrightarrow>
         d8_active_links_of X grid = Inr (dal, d8t, d8h) \<longrightarrow>
         FlowDirectorD8_init X grid =
           Inr (self\<lparr>fd_is_Voroni := False, fd_active_links := dal,
                     fd_activelink_tail := d8t, fd_activelink_head := d8h\<rparr>)))"
  by (cases "base_init X (new_object\<lparr>fd_method := ''D8''\<rparr>) grid")
     (auto simp: FlowDirectorD8_init_def updated_boundary_conditions_def bind_err_def Let_def)

section \<open>Routing with the collaborators of the spec\<close>

lemma wf_gridD:
  assumes "wf_grid grid" and "i < length (d8_tail grid)"
  shows "d8_tail grid ! i < length (status_at_node grid)"
    and "d8_head grid ! i < length (status_at_node grid)"
    and "d8_tail grid ! i \<noteq> d8_head grid ! i"
    and "0 < d8_length grid ! i"
    and "length (d8_head grid) = length (d8_tail grid)"
    and "length (d8_length grid) = length (d8_tail grid)"
  using assms
  by (auto simp: wf_grid_def list_all_length)

lemma spec_d8_active_links_wf:
  assumes "wf_grid grid"
  shows "spec_d8_active_links grid =
     Inr (active_ids grid, map (\<lambda>i. d8_tail grid ! i) (active_ids grid),
          map (\<lambda>i. d8_head grid ! i) (active_ids grid))"
proof -
  have len: "length (d8_tail grid) = length (d8_head grid)"
    using assms by (simp add: wf_grid_def)
  have bt: "\<forall>i\<in>set (d8_tail grid). i < length (status_at_node grid)"
    and bh: "\<forall>i\<in>set (d8_head grid). i < length (status_at_node grid)"
    using assms by (simp_all add: wf_grid_def list_all_iff)
  show ?thesis
    unfolding spec_d8_active_links_def active_links_given [OF len bt bh]
    by (simp add: bind_err_def active_ids_def link_is_active_def [abs_def] Let_def)
qed

lemma active_ids_bound: "i \<in> set (active_ids grid) \<Longrightarrow> i < length (d8_tail grid)"
  by (simp add: active_ids_def)

lemma spec_gradients_wf:
  assumes "wf_grid grid" and "length elevs = length (status_at_node grid)"
  shows "spec_gradients grid elevs =
     Inr (map (\<lambda>i. (elevs ! (d8_head grid ! i) - elevs ! (d8_tail grid ! i)) / d8_length grid ! i)
            (active_ids grid))"
proof -
  have h: "np_take elevs (map (\<lambda>i. d8_head grid ! i) (active_ids grid)) =
             Inr (map (\<lambda>i. elevs ! (d8_head grid ! i)) (active_ids grid))"
    using assms wf_gridD(2) [OF assms(1)] active_ids_bound
    by (subst np_take_Inr) (auto simp: o_def)
  have t: "np_take elevs (map (\<lambda>i. d8_tail grid ! i) (active_ids grid)) =
             Inr (map (\<lambda>i. elevs ! (d8_tail grid ! i)) (active_ids grid))"
    using assms wf_gridD(1) [OF assms(1)] active_ids_bound
    by (subst np_take_Inr) (auto simp: o_def)
  show ?thesis
    unfolding spec_gradients_def spec_d8_active_links_wf [OF assms(1)]
    by (simp add: bind_err_def h t) (rule nth_equalityI, simp_all)
qed

lemma zip4_map:
  "zip xs (zip (map f xs) (zip (map g xs) (map h xs))) = map (\<lambda>x. (x, f x, g x, h x)) xs"
  by (induction xs) simp_all

lemma candidates_Nil [simp]: "candidates elev [] n = []"
  by (simp add: candidates_def)

lemma candidates_Cons:
  "candidates elev (x # xs) n = outgoing_of elev n x @ candidates elev xs n"
  by (simp add: candidates_def)

lemma candidates_rows:
  assumes "\<forall>i\<in>set ids. d8_tail grid ! i \<noteq> d8_head grid ! i"
  shows "candidates elev
           (map (\<lambda>i. (i, d8_tail grid ! i, d8_head grid ! i,
               - ((elev ! (d8_head grid ! i) - elev ! (d8_tail grid ! i)) / d8_length grid ! i))) ids) n =
         map (\<lambda>i. (drop_along grid elev n i, other_end grid i n, i))
           (filter (\<lambda>i. (d8_tail grid ! i = n \<and> elev ! (d8_head grid ! i) < elev ! n) \<or>
                        (d8_head grid ! i = n \<and> elev ! (d8_tail grid ! i) < elev ! n)) ids)"
  using assms
proof (induction ids)
  case Nil
  then show ?case by simp
next
  case (Cons i ids)
  then have ne: "d8_tail grid ! i \<noteq> d8_head grid ! i" by simp
  have "outgoing_of elev n (i, d8_tail grid ! i, d8_head grid ! i,
               - ((elev ! (d8_head grid ! i) - elev ! (d8_tail grid ! i)) / d8_length grid ! i)) =
        (if (d8_tail grid ! i = n \<and> elev ! (d8_head grid ! i) < elev ! n) \<or>
            (d8_head grid ! i = n \<and> elev ! (d8_tail grid ! i) < elev ! n)
         then [(drop_along grid elev n i, other_end grid i n, i)] else [])"
    using ne
    by (auto simp: outgoing_of_def drop_along_def other_end_def minus_divide_left)
  then show ?case using Cons by (simp add: candidates_Cons)
qed

lemma candidates_link_rows:
  assumes "wf_grid grid"
  shows "candidates elev (link_rows grid elev) n =
           map (\<lambda>i. (drop_along grid elev n i, other_end grid i n, i)) (outgoing_links grid elev n)"
proof -
  have ne: "\<forall>i\<in>set (active_ids grid). d8_tail grid ! i \<noteq> d8_head grid ! i"
    using wf_gridD(3) [OF assms] active_ids_bound by blast
  show ?thesis
    unfolding link_rows_def candidates_rows [OF ne]
    by (simp add: active_ids_def outgoing_links_def)
qed

lemma steepest_in: "steepest b cs \<in> set (b # cs)"
  by (induction cs arbitrary: b) (auto split: if_splits)

lemma steepest_ge: "c \<in> set (b # cs) \<Longrightarrow> fst c \<le> fst (steepest b cs)"
proof (induction cs arbitrary: b c)
  case Nil
  then show ?case by simp
next
  case (Cons a cs)
  define b' where "b' = (if fst b < fst a then a else b)"
  have step: "steepest b (a # cs) = steepest b' cs" by (simp add: b'_def)
  have b': "fst b \<le> fst b'" "fst a \<le> fst b'" by (auto simp: b'_def)
  have best: "fst b' \<le> fst (steepest b' cs)" by (rule Cons.IH) simp
  from Cons.prems consider "c = b" | "c = a" | "c \<in> set cs" by auto
  then show ?case
  proof cases
    case 1 then show ?thesis unfolding step using b'(1) best by (auto intro: order_trans)
  next
    case 2 then show ?thesis unfolding step using b'(2) best by (auto intro: order_trans)
  next
    case 3 then show ?thesis unfolding step by (intro Cons.IH) simp
  qed
qed

lemma steepest_Max: "fst (steepest b cs) = Max (fst ` set (b # cs))"
proof (rule sym, rule Max_eqI)
  show "finite (fst ` set (b # cs))" by simp
  show "\<And>y. y \<in> fst ` set (b # cs) \<Longrightarrow> y \<le> fst (steepest b cs)"
    using steepest_ge by blast
  show "fst (steepest b cs) \<in> fst ` set (b # cs)"
    using steepest_in by blast
qed

lemma length_routed [simp]: "length (routed grid elev) = length elev"
  by (simp add: routed_def)

lemma flow_directions_landlab:
  assumes "wf_grid grid" and "length elev = length (status_at_node grid)"
  shows "flow_directions elev (active_ids grid)
           (map (\<lambda>i. d8_tail grid ! i) (active_ids grid))
           (map (\<lambda>i. d8_head grid ! i) (active_ids grid))
           (map uminus (map (\<lambda>i. (elev ! (d8_head grid ! i) - elev ! (d8_tail grid ! i))
                                  / d8_length grid ! i) (active_ids grid)))
           base =
         Inr (map fst (routed grid elev), map (\<lambda>x. fst (snd x)) (routed grid elev),
              filter (\<lambda>n. candidates elev (link_rows grid elev) n = [] \<and> n \<notin> set base)
                [0..<length elev],
              map (\<lambda>x. snd (snd x)) (routed grid elev))"
proof -
  have t: "list_all (\<lambda>t. t < length elev) (map (\<lambda>i. d8_tail grid ! i) (active_ids grid))"
    using assms wf_gridD(1) [OF assms(1)] active_ids_bound by (auto simp: list_all_iff)
  have h: "list_all (\<lambda>t. t < length elev) (map (\<lambda>i. d8_head grid ! i) (active_ids grid))"
    using assms wf_gridD(2) [OF assms(1)] active_ids_bound by (auto simp: list_all_iff)
  have rows: "zip (active_ids grid)
          (zip (map (\<lambda>i. d8_tail grid ! i) (active_ids grid))
            (zip (map (\<lambda>i. d8_head grid ! i) (active_ids grid))
              (map uminus (map (\<lambda>i. (elev ! (d8_head grid ! i) - elev ! (d8_tail grid ! i))
                                  / d8_length grid ! i) (active_ids grid))))) =
        link_rows grid elev"
    unfolding link_rows_def map_map o_def by (rule zip4_map)
  show ?thesis
    unfolding flow_directions_def rows Let_def routed_def [symmetric]
    using t h by simp
qed

lemma fold_set_True:
  "\<forall>i\<in>set idx. i < length a \<Longrightarrow>
   fold (\<lambda>i b. b[np_pos n (int i) := True]) idx a =
     map (\<lambda>k. a ! k \<or> k \<in> set idx) [0..<length a]"
proof (induction idx arbitrary: a)
  case Nil
  then show ?case by (simp add: map_nth)
next
  case (Cons i idx)
  have "fold (\<lambda>i b. b[np_pos n (int i) := True]) idx (a[i := True]) =
        map (\<lambda>k. a[i := True] ! k \<or> k \<in> set idx) [0..<length (a[i := True])]"
    by (rule Cons.IH) (use Cons.prems in simp)
  moreover have "i < length a" using Cons.prems by simp
  ultimately show ?case
    by (auto simp: np_pos_def nth_list_update intro!: nth_equalityI)
qed

lemma flat_fill_flags:
  assumes "\<forall>i\<in>set sink. i < n"
  shows "flat_fill (replicate n False) (map int sink) True = Inr (map (\<lambda>k. k \<in> set sink) [0..<n])"
proof -
  have ok: "list_all (np_index_ok n) (map int sink)"
    using assms by (auto simp: list_all_iff np_index_ok_def)
  have "fold (\<lambda>i b. b[np_pos n i := True]) (map int sink) (replicate n False) =
        fold (\<lambda>i b. b[np_pos n (int i) := True]) sink (replicate n False)"
    by (simp add: fold_map o_def)
  also have "\<dots> = map (\<lambda>k. replicate n False ! k \<or> k \<in> set sink) [0..<length (replicate n False)]"
    by (rule fold_set_True) (use assms in simp)
  also have "\<dots> = map (\<lambda>k. k \<in> set sink) [0..<n]"
    by simp
  finally show ?thesis using ok by (simp add: flat_fill_def)
qed

text \<open>On a well-formed grid whose node fields fit, \<open>direct_flow\<close> returns, and this is what it
  returns.\<close>

lemma sink_nodes_bound: "i \<in> set (sink_nodes grid elev) \<Longrightarrow> i < length elev"
  by (simp add: sink_nodes_def)

lemma direct_flow_landlab_fresh:
  assumes wf: "wf_grid grid" and fit: "fields_fit grid node"
    and fresh: "fd_bc_set_code self = Some (bc_set_code grid)"
    and cache: "fd_active_links self = active_ids grid"
       "fd_activelink_tail self = map (\<lambda>i. d8_tail grid ! i) (active_ids grid)"
       "fd_activelink_head self = map (\<lambda>i. d8_head grid ! i) (active_ids grid)"
  shows "direct_flow landlab grid node self =
     Inr (routed_node grid node,
          self\<lparr>fd_sink := sink_nodes grid (topographic_elevation node)\<rparr>,
          map fst (routed grid (topographic_elevation node)))"
proof -
  let ?elev = "topographic_elevation node"
  have len: "length ?elev = length (status_at_node grid)"
    using fit by (simp add: fields_fit_def)
  have a1: "assign_all (flow_receiver_node node) (map fst (routed grid ?elev)) =
              Inr (map fst (routed grid ?elev))"
    and a2: "assign_all (topographic_steepest_slope node) (map (\<lambda>x. fst (snd x)) (routed grid ?elev)) =
              Inr (map (\<lambda>x. fst (snd x)) (routed grid ?elev))"
    and a3: "assign_all (flow_link_to_receiver_node node) (map (\<lambda>x. snd (snd x)) (routed grid ?elev)) =
              Inr (map (\<lambda>x. snd (snd x)) (routed grid ?elev))"
    and a4: "assign_all (flow_sink_flag node) (replicate (length ?elev) False) =
              Inr (replicate (length ?elev) False)"
    using fit by (simp_all add: fields_fit_def assign_all_def)
  have a5: "flat_fill (replicate (length ?elev) False) (map int (sink_nodes grid ?elev)) True =
            Inr (map (\<lambda>n. n \<in> set (sink_nodes grid ?elev)) [0..<length ?elev])"
    by (rule flat_fill_flags) (simp add: sink_nodes_bound)
  have g: "gradients_at_d8_active_links landlab grid ?elev =
      Inr (map (\<lambda>i. (?elev ! (d8_head grid ! i) - ?elev ! (d8_tail grid ! i)) / d8_length grid ! i)
            (active_ids grid))"
    by (simp add: landlab_def spec_gradients_wf [OF wf len])
  have sel: "flow_directions_of landlab = flow_directions"
    by (simp add: landlab_def)
  show ?thesis
    unfolding direct_flow_fresh [OF fresh] g cache sel baselevel_nodes_of_def [symmetric]
    by (simp only: bind_err_def sum.case prod.case flow_directions_landlab [OF wf len]
        sink_nodes_def [symmetric] length_map length_routed a1 a2 a3 a4 a5 routed_node_def)
qed

lemma direct_flow_landlab:
  assumes wf: "wf_grid grid" and fit: "fields_fit grid node" and step: "in_step grid self"
  shows "direct_flow landlab grid node self =
     Inr (routed_node grid node,
          self\<lparr>fd_active_links := active_ids grid,
               fd_activelink_tail := map (\<lambda>i. d8_tail grid ! i) (active_ids grid),
               fd_activelink_head := map (\<lambda>i. d8_head grid ! i) (active_ids grid),
               fd_bc_set_code := Some (bc_set_code grid),
               fd_sink := sink_nodes grid (topographic_elevation node)\<rparr>,
          map fst (routed grid (topographic_elevation node)))"
proof (cases "fd_bc_set_code self = Some (bc_set_code grid)")
  case True
  with step have e: "spec_d8_active_links grid =
        Inr (fd_active_links self, fd_activelink_tail self, fd_activelink_head self)"
    by (simp add: in_step_def)
  have cache: "fd_active_links self = active_ids grid"
       "fd_activelink_tail self = map (\<lambda>i. d8_tail grid ! i) (active_ids grid)"
       "fd_activelink_head self = map (\<lambda>i. d8_head grid ! i) (active_ids grid)"
    using e [unfolded spec_d8_active_links_wf [OF wf] sum.inject prod.inject] by auto
  have "self\<lparr>fd_active_links := active_ids grid,
               fd_activelink_tail := map (\<lambda>i. d8_tail grid ! i) (active_ids grid),
               fd_activelink_head := map (\<lambda>i. d8_head grid ! i) (active_ids grid),
               fd_bc_set_code := Some (bc_set_code grid)\<rparr> = self"
    by (rule flow_director.equality) (simp_all add: cache True)
  then show ?thesis
    unfolding direct_flow_landlab_fresh [OF wf fit True cache]
    by simp
next
  case False
  show ?thesis
    unfolding direct_flow_stale [OF False]
    by (simp add: landlab_def [THEN arg_cong, of d8_active_links_of]
        spec_d8_active_links_wf [OF wf] bind_err_def
        direct_flow_landlab_fresh [OF wf fit])
qed

lemma route_node_outgoing:
  assumes "wf_grid grid"
  shows "route_node elev (link_rows grid elev) n =
     (case outgoing_links grid elev n of
        [] \<Rightarrow> (n, 0, - 1)
      | i # js \<Rightarrow>
          (case steepest (drop_along grid elev n i, other_end grid i n, i)
                  (map (\<lambda>i. (drop_along grid elev n i, other_end grid i n, i)) js) of
             (s, m, l) \<Rightarrow> (m, s, int l)))"
  by (simp add: route_node_def candidates_link_rows [OF assms] split: list.splits)

lemma outgoing_linksD:
  assumes "i \<in> set (outgoing_links grid elev n)"
  shows "i < length (d8_tail grid)" and "link_is_active grid i"
    and "d8_tail grid ! i = n \<or> d8_head grid ! i = n"
    and "elev ! other_end grid i n < elev ! n \<or> d8_tail grid ! i = d8_head grid ! i"
  using assms by (auto simp: outgoing_links_def other_end_def)

text \<open>What is routed at a node that has an outgoing link: one of its outgoing links, of
  the greatest drop.\<close>

lemma route_node_some:
  assumes wf: "wf_grid grid" and ne: "outgoing_links grid elev n \<noteq> []"
  shows "\<exists>L\<in>set (outgoing_links grid elev n).
           route_node elev (link_rows grid elev) n =
             (other_end grid L n, drop_along grid elev n L, int L) \<and>
           drop_along grid elev n L =
             Max (drop_along grid elev n ` set (outgoing_links grid elev n))"
proof -
  let ?c = "\<lambda>i. (drop_along grid elev n i, other_end grid i n, i)"
  from ne obtain i js where out: "outgoing_links grid elev n = i # js"
    by (cases "outgoing_links grid elev n") auto
  have "steepest (?c i) (map ?c js) \<in> set (?c i # map ?c js)"
    by (rule steepest_in)
  then obtain L where L: "L \<in> set (i # js)" and st: "steepest (?c i) (map ?c js) = ?c L"
    by auto
  have "fst (steepest (?c i) (map ?c js)) = Max (fst ` set (?c i # map ?c js))"
    by (rule steepest_Max)
  also have "fst ` set (?c i # map ?c js) = drop_along grid elev n ` set (i # js)"
    by (auto simp: image_iff)
  finally have mx: "drop_along grid elev n L = Max (drop_along grid elev n ` set (i # js))"
    by (simp add: st)
  show ?thesis
    using L mx by (auto simp: route_node_outgoing [OF wf] out st)
qed

lemma route_node_none:
  assumes wf: "wf_grid grid" and ne: "outgoing_links grid elev n = []"
  shows "route_node elev (link_rows grid elev) n = (n, 0, - 1)"
  by (simp add: route_node_outgoing [OF wf] ne)

lemma drop_along_pos:
  assumes wf: "wf_grid grid" and L: "L \<in> set (outgoing_links grid elev n)"
  shows "0 < drop_along grid elev n L" and "other_end grid L n \<noteq> n"
proof -
  have b: "L < length (d8_tail grid)" using outgoing_linksD(1) [OF L] .
  have ne: "d8_tail grid ! L \<noteq> d8_head grid ! L" using wf_gridD(3) [OF wf b] .
  have lt: "elev ! other_end grid L n < elev ! n" using outgoing_linksD(4) [OF L] ne by blast
  have len: "0 < d8_length grid ! L" using wf_gridD(4) [OF wf b] .
  show "0 < drop_along grid elev n L"
    using lt len by (simp add: drop_along_def)
  show "other_end grid L n \<noteq> n"
    using outgoing_linksD(3) [OF L] ne by (auto simp: other_end_def)
qed

lemma routed_nth:
  "n < length elev \<Longrightarrow> routed grid elev ! n = route_node elev (link_rows grid elev) n"
  by (simp add: routed_def)

text \<open>
  Claim C1. On a well-formed grid, for every node \<open>n\<close> with at least one active outgoing
  link (an active link on which \<open>n\<close> is the strictly higher endpoint), a routing invocation
  returns, and afterwards \<open>steepest_slope[n]\<close> is the maximum of
  \<open>(elev[n] - elev[m]) / length(L)\<close> over these links \<open>L\<close> to neighbors \<open>m\<close>, \<open>receiver[n]\<close> is the
  far end of one such link \<open>L\<close> that attains the maximum, and \<open>link_to_receiver[n]\<close> is the id
  of that link.
\<close>

theorem steepest_selection:
  assumes wf: "wf_grid grid" and fit: "fields_fit grid node" and step: "in_step grid self"
    and n: "n < length (status_at_node grid)"
    and out: "outgoing_links grid (topographic_elevation node) n \<noteq> []"
  shows "\<exists>node' self' receiver.
     direct_flow landlab grid node self = Inr (node', self', receiver) \<and>
     topographic_steepest_slope node' ! n =
       Max (drop_along grid (topographic_elevation node) n
              ` set (outgoing_links grid (topographic_elevation node) n)) \<and>
     (\<exists>L\<in>set (outgoing_links grid (topographic_elevation node) n).
        flow_link_to_receiver_node node' ! n = int L \<and>
        flow_receiver_node node' ! n = other_end grid L n \<and>
        receiver ! n = other_end grid L n \<and>
        drop_along grid (topographic_elevation node) n L = topographic_steepest_slope node' ! n)"
proof -
  let ?elev = "topographic_elevation node"
  have len: "n < length ?elev" using fit n by (simp add: fields_fit_def)
  from route_node_some [OF wf out] obtain L where
    L: "L \<in> set (outgoing_links grid ?elev n)"
    and r: "route_node ?elev (link_rows grid ?elev) n =
             (other_end grid L n, drop_along grid ?elev n L, int L)"
    and mx: "drop_along grid ?elev n L = Max (drop_along grid ?elev n ` set (outgoing_links grid ?elev n))"
    by blast
  show ?thesis
    unfolding direct_flow_landlab [OF wf fit step]
    using L mx len by (auto simp: routed_node_def routed_nth r)
qed

text \<open>
  Claim C5. On a well-formed grid, for every node \<open>n\<close>, a routing invocation returns, and
  afterwards \<open>steepest_slope[n]\<close> is not negative and is 0 exactly when \<open>receiver[n]\<close> is \<open>n\<close>.
\<close>

theorem slope_zero_iff_self_receiver:
  assumes wf: "wf_grid grid" and fit: "fields_fit grid node" and step: "in_step grid self"
    and n: "n < length (status_at_node grid)"
  shows "\<exists>node' self' receiver.
     direct_flow landlab grid node self = Inr (node', self', receiver) \<and>
     0 \<le> topographic_steepest_slope node' ! n \<and>
     (topographic_steepest_slope node' ! n = 0 \<longleftrightarrow> flow_receiver_node node' ! n = n)"
proof -
  let ?elev = "topographic_elevation node"
  have len: "n < length ?elev" using fit n by (simp add: fields_fit_def)
  show ?thesis
  proof (cases "outgoing_links grid ?elev n = []")
    case True
    show ?thesis
      unfolding direct_flow_landlab [OF wf fit step]
      using len by (simp add: routed_node_def routed_nth route_node_none [OF wf True])
  next
    case False
    from route_node_some [OF wf False] obtain L where
      L: "L \<in> set (outgoing_links grid ?elev n)"
      and r: "route_node ?elev (link_rows grid ?elev) n =
             (other_end grid L n, drop_along grid ?elev n L, int L)"
      by blast
    show ?thesis
      unfolding direct_flow_landlab [OF wf fit step]
      using len drop_along_pos [OF wf L] by (simp add: routed_node_def routed_nth r)
  qed
qed



lemma baselevel_nodes_of_mem:
  "n \<in> set (baselevel_nodes_of grid) \<longleftrightarrow>
     n < length (status_at_node grid) \<and>
     (status_at_node grid ! n = FIXED_VALUE_BOUNDARY \<or>
      status_at_node grid ! n = FIXED_GRADIENT_BOUNDARY)"
  by (auto simp: baselevel_nodes_of_def np_where_def)



section \<open>The doctest of FlowDirectorD8\<close>

lemma node_link_index_3_3:
  "node_link_index (3, 3) = ([0, 1, 2, 3, 4, 5, 0, 1, 3, 4, 6, 7], [3, 4, 5, 6, 7, 8, 1, 2, 4, 5, 7, 8])"
  by code_simp

lemma diagonal_links_3_3:
  "diagonal_links (3, 3) = [(0, 4), (1, 3), (1, 5), (2, 4), (3, 7), (4, 6), (4, 8), (5, 7)]"
  by code_simp

lemma raster_3_3:
  "raster_model_grid (3, 3) d st =
     \<lparr>grid_class = RasterModelGrid, grid_shape = (3, 3), status_at_node = st, bc_set_code = 0,
      d8_tail = [0, 1, 2, 3, 4, 5, 0, 1, 3, 4, 6, 7, 0, 1, 1, 2, 3, 4, 4, 5],
      d8_head = [3, 4, 5, 6, 7, 8, 1, 2, 4, 5, 7, 8, 4, 3, 5, 4, 7, 6, 8, 7],
      d8_length = [1, 1, 1, 1, 1, 1, 1, 1, 1, 1, 1, 1, d, d, d, d, d, d, d, d]\<rparr>"
  by (simp add: raster_model_grid_def node_link_index_3_3 diagonal_links_3_3)

lemma wf_raster_3_3:
  "0 < d \<Longrightarrow> length st = 9 \<Longrightarrow> wf_grid (raster_model_grid (3, 3) d st)"
  by (simp add: raster_3_3 wf_grid_def)

lemma active_doctest:
  "spec_d8_active_links doctest_grid = Inr ([1, 12, 15], [1, 0, 2], [4, 4, 4])"
  by (simp add: doctest_grid_def raster_3_3 spec_d8_active_links_def active_links_def
      bind_err_def np_take_def np_binop_def np_where_def INTERIOR_NODE_def INACTIVE_BOUNDARY_def
      upt_rec [of _ "numeral _"] upt_rec [of _ "Suc _"])

lemma wf_doctest: "wf_grid doctest_grid"
  by (simp add: doctest_grid_def wf_raster_3_3)

lemma fit_doctest: "fields_fit doctest_grid doctest_node"
  by (simp add: fields_fit_def doctest_grid_def raster_3_3 doctest_node_def)

lemma in_step_new: "in_step doctest_grid new_object"
  by (simp add: in_step_def new_object_def)

lemma active_ids_doctest: "active_ids doctest_grid = [1, 12, 15]"
  using active_doctest unfolding spec_d8_active_links_wf [OF wf_doctest] by simp

lemma link_rows_doctest:
  "link_rows doctest_grid (topographic_elevation doctest_node) =
     [(1, 1, 4, - 1), (12, 0, 4, - sqrt 2), (15, 2, 4, 0)]"
  unfolding link_rows_def active_ids_doctest
  by (simp add: doctest_grid_def raster_3_3 doctest_node_def real_div_sqrt)

lemma upt_9: "[0..<9] = [0, 1, 2, 3, 4, 5, 6, 7, 8]"
  by code_simp

lemma routed_doctest:
  "routed doctest_grid (topographic_elevation doctest_node) =
     [(0, 0, - 1), (1, 0, - 1), (2, 0, - 1), (3, 0, - 1), (0, sqrt 2, 12),
      (5, 0, - 1), (6, 0, - 1), (7, 0, - 1), (8, 0, - 1)]"
  unfolding routed_def link_rows_doctest
  by (simp add: doctest_node_def upt_9 route_node_def candidates_def outgoing_of_def)

lemma sink_nodes_doctest:
  "sink_nodes doctest_grid (topographic_elevation doctest_node) = [3, 5, 6, 7, 8]"
  unfolding sink_nodes_def link_rows_doctest
  by (simp add: doctest_node_def upt_9 candidates_def outgoing_of_def baselevel_nodes_of_mem
      doctest_grid_def raster_3_3 FIXED_VALUE_BOUNDARY_def FIXED_GRADIENT_BOUNDARY_def)

lemma routed_node_doctest: "routed_node doctest_grid doctest_node = doctest_node_routed"
  unfolding routed_node_def routed_doctest sink_nodes_doctest
  by (simp add: doctest_node_def doctest_node_routed_def upt_9)

lemma direct_flow_doctest:
  "direct_flow landlab doctest_grid doctest_node new_object =
     Inr (doctest_node_routed, doctest_object_routed, [0, 1, 2, 3, 0, 5, 6, 7, 8])"
  unfolding direct_flow_landlab [OF wf_doctest fit_doctest in_step_new] routed_node_doctest
    routed_doctest active_ids_doctest sink_nodes_doctest
  by (simp add: doctest_object_routed_def new_object_def doctest_grid_def raster_3_3
      doctest_node_def upt_9)







text \<open>The witnesses: the theorems above at the doctest grid.\<close>

theorem direct_flow_twice_witness:
  "direct_flow landlab doctest_grid doctest_node new_object =
     Inr (doctest_node_routed, doctest_object_routed, [0, 1, 2, 3, 0, 5, 6, 7, 8]) \<and>
   direct_flow landlab doctest_grid doctest_node_routed doctest_object_routed =
     Inr (doctest_node_routed, doctest_object_routed, [0, 1, 2, 3, 0, 5, 6, 7, 8])"
  using direct_flow_twice [OF direct_flow_doctest] direct_flow_doctest by blast

lemma outgoing_doctest_4:
  "outgoing_links doctest_grid (topographic_elevation doctest_node) 4 = [1, 12]"
  by (simp add: outgoing_links_def doctest_grid_def raster_3_3 doctest_node_def
      link_is_active_def INTERIOR_NODE_def INACTIVE_BOUNDARY_def
      upt_rec [of _ "numeral _"] upt_rec [of _ "Suc _"])

lemma node_4_of_doctest: "4 < length (status_at_node doctest_grid)"
  by (simp add: doctest_grid_def raster_3_3)


theorem steepest_selection_witness:
  "wf_grid doctest_grid \<and> fields_fit doctest_grid doctest_node \<and>
   in_step doctest_grid new_object \<and> 4 < length (status_at_node doctest_grid) \<and>
   outgoing_links doctest_grid (topographic_elevation doctest_node) 4 = [1, 12] \<and>
   (\<exists>node' self' receiver.
     direct_flow landlab doctest_grid doctest_node new_object = Inr (node', self', receiver) \<and>
     topographic_steepest_slope node' ! 4 =
       Max (drop_along doctest_grid (topographic_elevation doctest_node) 4
              ` set (outgoing_links doctest_grid (topographic_elevation doctest_node) 4)) \<and>
     (\<exists>L\<in>set (outgoing_links doctest_grid (topographic_elevation doctest_node) 4).
        flow_link_to_receiver_node node' ! 4 = int L \<and>
        flow_receiver_node node' ! 4 = other_end doctest_grid L 4 \<and>
        receiver ! 4 = other_end doctest_grid L 4 \<and>
        drop_along doctest_grid (topographic_elevation doctest_node) 4 L =
          topographic_steepest_slope node' ! 4))"
proof -
  have ne: "outgoing_links doctest_grid (topographic_elevation doctest_node) 4 \<noteq> []"
    by (simp add: outgoing_doctest_4)
  show ?thesis
    using steepest_selection [OF wf_doctest fit_doctest in_step_new node_4_of_doctest ne]
      wf_doctest fit_doctest in_step_new node_4_of_doctest outgoing_doctest_4
    by blast
qed

theorem slope_zero_iff_self_receiver_witness:
  "wf_grid doctest_grid \<and> fields_fit doctest_grid doctest_node \<and>
   in_step doctest_grid new_object \<and> 4 < length (status_at_node doctest_grid) \<and>
   (\<exists>node' self' receiver.
     direct_flow landlab doctest_grid doctest_node new_object = Inr (node', self', receiver) \<and>
     0 \<le> topographic_steepest_slope node' ! 4 \<and>
     (topographic_steepest_slope node' ! 4 = 0 \<longleftrightarrow> flow_receiver_node node' ! 4 = 4))"
  using slope_zero_iff_self_receiver [OF wf_doctest fit_doctest in_step_new node_4_of_doctest]
    wf_doctest fit_doctest in_step_new node_4_of_doctest
  by blast


theorem FlowDirectorD8_init_by_grid_class_witness:
  "grid_class voronoi_grid = VoronoiDelaunayGrid \<and>
   FlowDirectorD8_init landlab voronoi_grid = Inl NotImplementedError \<and>
   grid_class doctest_grid = RasterModelGrid \<and>
   FlowDirectorD8_init landlab doctest_grid =
     Inr \<lparr>fd_method = ''D8'', fd_is_Voroni = False, fd_bc_set_code = None,
          fd_active_links = [1, 12, 15], fd_activelink_tail = [1, 0, 2],
          fd_activelink_head = [4, 4, 4], fd_sink = []\<rparr>"
proof -
  have v: "grid_class voronoi_grid = VoronoiDelaunayGrid"
    by (simp add: voronoi_grid_def)
  have r: "grid_class doctest_grid = RasterModelGrid"
    by (simp add: doctest_grid_def raster_3_3)
  have b: "base_init landlab (new_object\<lparr>fd_method := ''D8''\<rparr>) g =
      Inr \<lparr>fd_method = ''D8'', fd_is_Voroni = False, fd_bc_set_code = None,
          fd_active_links = [], fd_activelink_tail = [], fd_activelink_head = [], fd_sink = []\<rparr>" for g
    by (simp add: landlab_def spec_base_init_def new_object_def)
  have d: "d8_active_links_of landlab doctest_grid = Inr ([1, 12, 15], [1, 0, 2], [4, 4, 4])"
    by (simp add: landlab_def active_doctest)
  from FlowDirectorD8_init_by_grid_class [of voronoi_grid landlab] v b
  have 1: "FlowDirectorD8_init landlab voronoi_grid = Inl NotImplementedError"
    by blast
  from FlowDirectorD8_init_by_grid_class [of doctest_grid landlab] r b d
  have "FlowDirectorD8_init landlab doctest_grid =
     Inr (\<lparr>fd_method = ''D8'', fd_is_Voroni = False, fd_bc_set_code = None,
          fd_active_links = [], fd_activelink_tail = [], fd_activelink_head = [], fd_sink = []\<rparr>
          \<lparr>fd_is_Voroni := False, fd_active_links := [1, 12, 15],
                     fd_activelink_tail := [1, 0, 2], fd_activelink_head := [4, 4, 4]\<rparr>)"
    by blast
  then have 2: "FlowDirectorD8_init landlab doctest_grid =
     Inr \<lparr>fd_method = ''D8'', fd_is_Voroni = False, fd_bc_set_code = None,
          fd_active_links = [1, 12, 15], fd_activelink_tail = [1, 0, 2],
          fd_activelink_head = [4, 4, 4], fd_sink = []\<rparr>"
    by simp
  show ?thesis using v r 1 2 by blast
qed

text \<open>After node 0 of the doctest grid is closed, the object that routed the grid before is
  stale; the next routing derives the links again (link 12 is no longer among them) and
  node 4 drains into node 1 through link 1.\<close>

lemma closed_corner_grid_eq:
  "closed_corner_grid = (raster_model_grid (3, 3) (sqrt 2) [4, 1, 1, 4, 0, 4, 4, 4, 4])\<lparr>bc_set_code := 1\<rparr>"
  by (simp add: closed_corner_grid_def set_status_at_nodes_def doctest_grid_def raster_3_3
      INACTIVE_BOUNDARY_def)

lemma wf_closed_corner: "wf_grid closed_corner_grid"
  by (simp add: closed_corner_grid_eq raster_3_3 wf_grid_def)

lemma fit_closed_corner: "fields_fit closed_corner_grid doctest_node_routed"
  by (simp add: fields_fit_def closed_corner_grid_eq raster_3_3 doctest_node_routed_def)

lemma stale_closed_corner:
  "fd_bc_set_code doctest_object_routed \<noteq> Some (bc_set_code closed_corner_grid)"
  by (simp add: doctest_object_routed_def closed_corner_grid_eq raster_3_3)

lemma active_ids_closed_corner: "active_ids closed_corner_grid = [1, 15]"
  by (simp add: active_ids_def closed_corner_grid_eq raster_3_3 link_is_active_def
      INTERIOR_NODE_def INACTIVE_BOUNDARY_def upt_rec [of _ "numeral _"] upt_rec [of _ "Suc _"])

lemma link_rows_closed_corner:
  "link_rows closed_corner_grid (topographic_elevation doctest_node_routed) =
     [(1, 1, 4, - 1), (15, 2, 4, 0)]"
  unfolding link_rows_def active_ids_closed_corner
  by (simp add: closed_corner_grid_eq raster_3_3 doctest_node_routed_def)

lemma routed_closed_corner:
  "routed closed_corner_grid (topographic_elevation doctest_node_routed) =
     [(0, 0, - 1), (1, 0, - 1), (2, 0, - 1), (3, 0, - 1), (1, 1, 1),
      (5, 0, - 1), (6, 0, - 1), (7, 0, - 1), (8, 0, - 1)]"
  unfolding routed_def link_rows_closed_corner
  by (simp add: doctest_node_routed_def upt_9 route_node_def candidates_def outgoing_of_def)

lemma sink_nodes_closed_corner:
  "sink_nodes closed_corner_grid (topographic_elevation doctest_node_routed) = [0, 3, 5, 6, 7, 8]"
  unfolding sink_nodes_def link_rows_closed_corner
  by (simp add: doctest_node_routed_def upt_9 candidates_def outgoing_of_def
      baselevel_nodes_of_mem closed_corner_grid_eq raster_3_3 FIXED_VALUE_BOUNDARY_def
      FIXED_GRADIENT_BOUNDARY_def)

lemma direct_flow_closed_corner:
  "direct_flow landlab closed_corner_grid doctest_node_routed doctest_object_routed =
     Inr (rerouted_node, rerouted_object, [0, 1, 2, 3, 1, 5, 6, 7, 8])"
proof -
  have step: "in_step closed_corner_grid doctest_object_routed"
    using stale_closed_corner by (simp add: in_step_def)
  have rn: "routed_node closed_corner_grid doctest_node_routed = rerouted_node"
    unfolding routed_node_def routed_closed_corner sink_nodes_closed_corner
    by (simp add: doctest_node_routed_def rerouted_node_def upt_9)
  show ?thesis
    unfolding direct_flow_landlab [OF wf_closed_corner fit_closed_corner step] rn
      routed_closed_corner active_ids_closed_corner sink_nodes_closed_corner
    by (simp add: doctest_object_routed_def rerouted_object_def closed_corner_grid_eq raster_3_3
      doctest_node_routed_def upt_9)
qed

theorem stale_links_are_rederived_witness:
  "fd_bc_set_code doctest_object_routed = Some (bc_set_code doctest_grid) \<and>
   fd_bc_set_code doctest_object_routed \<noteq>
     Some (bc_set_code (set_status_at_nodes doctest_grid [0] INACTIVE_BOUNDARY)) \<and>
   direct_flow landlab doctest_grid doctest_node new_object =
     Inr (doctest_node_routed, doctest_object_routed, [0, 1, 2, 3, 0, 5, 6, 7, 8]) \<and>
   direct_flow landlab (set_status_at_nodes doctest_grid [0] INACTIVE_BOUNDARY)
       doctest_node_routed doctest_object_routed =
     Inr (rerouted_node, rerouted_object, [0, 1, 2, 3, 1, 5, 6, 7, 8]) \<and>
   d8_active_links_of landlab (set_status_at_nodes doctest_grid [0] INACTIVE_BOUNDARY) =
     Inr (fd_active_links rerouted_object, fd_activelink_tail rerouted_object,
          fd_activelink_head rerouted_object)"
proof -
  have fresh: "fd_bc_set_code doctest_object_routed = Some (bc_set_code doctest_grid)"
    by (simp add: doctest_object_routed_def doctest_grid_def raster_3_3)
  note inst = stale_links_are_rederived [of doctest_object_routed doctest_grid landlab
      doctest_node_routed "[0]" INACTIVE_BOUNDARY]
  from inst fresh have stale: "fd_bc_set_code doctest_object_routed \<noteq>
     Some (bc_set_code (set_status_at_nodes doctest_grid [0] INACTIVE_BOUNDARY))"
    by blast
  note run = direct_flow_closed_corner [unfolded closed_corner_grid_def]
  from stale_links_are_rederived [of doctest_object_routed
      "set_status_at_nodes doctest_grid [0] INACTIVE_BOUNDARY" landlab doctest_node_routed] stale run
  have "d8_active_links_of landlab (set_status_at_nodes doctest_grid [0] INACTIVE_BOUNDARY) =
     Inr (fd_active_links rerouted_object, fd_activelink_tail rerouted_object,
          fd_activelink_head rerouted_object)"
    by blast
  then show ?thesis
    using fresh stale run direct_flow_doctest by blast
qed

section \<open>diagonal\_array and diagonal\_array\_slow\<close>

text \<open>Row-major positions, and folds that write one place of a list at a time.\<close>

lemma decomp_unique:
  fixes n :: nat
  assumes "j < n" and "j' < n" and "i * n + j = i' * n + j'"
  shows "i = i' \<and> j = j'"
proof -
  have "(i * n + j) div n = (i' * n + j') div n"
    by (rule arg_cong [OF assms(3)])
  then have "i = i'" using assms(1,2) by simp
  then show ?thesis using assms(3) by simp
qed

lemma cell_div_mod:
  assumes "c < (C::nat)"
  shows "(r * C + c) div C = r" "(r * C + c) mod C = c"
  using assms by simp_all

lemma cell_bound:
  assumes "r < R" "c < (C::nat)"
  shows "r * C + c < R * C"
proof -
  have "r * C + c < r * C + C" using assms(2) by simp
  also have "\<dots> = (r + 1) * C" by simp
  also have "\<dots> \<le> R * C" using assms(1) by (intro mult_le_mono1) simp
  finally show ?thesis .
qed

lemma upt_Suc_mult: "[0..<Suc R * C] = [0..<R * C] @ map (\<lambda>j. R * C + j) [0..<C]"
proof -
  have "[0..<R * C + C] = [0..<R * C] @ [R * C..<R * C + C]"
    by (rule upt_add_eq_append) simp
  moreover have "[R * C..<R * C + C] = map (\<lambda>j. R * C + j) [0..<C]"
    by (rule nth_equalityI) simp_all
  ultimately show ?thesis by (simp add: add.commute)
qed

lemma concat_grid:
  "concat (map (\<lambda>k. map (f k) [0..<C]) [0..<R]) = map (\<lambda>q. f (q div C) (q mod C)) [0..<R * C]"
proof (induction R)
  case 0
  then show ?case by simp
next
  case (Suc R)
  have "map (\<lambda>q. f (q div C) (q mod C)) (map (\<lambda>j. R * C + j) [0..<C]) = map (f R) [0..<C]"
    by (rule nth_equalityI) simp_all
  then show ?case
    unfolding upt_Suc_mult using Suc by simp
qed

lemma upt_shift: "[r0..<R + r0] = map (\<lambda>k. r0 + k) [0..<R]"
  using map_add_upt [of r0 R] by (simp add: add.commute)

lemma zip_map_same: "zip (map f xs) (map g xs) = map (\<lambda>x. (f x, g x)) xs"
  by (induction xs) simp_all

lemma fold_fill_nth:
  "p < length a \<Longrightarrow>
   fold (\<lambda>i b. b[g i := v]) idx a ! p = (if p \<in> g ` set idx then v else a ! p)"
proof (induction idx arbitrary: a)
  case Nil
  then show ?case by simp
next
  case (Cons i idx)
  have "fold (\<lambda>i b. b[g i := v]) (i # idx) a ! p = fold (\<lambda>i b. b[g i := v]) idx (a[g i := v]) ! p"
    by simp
  also have "\<dots> = (if p \<in> g ` set idx then v else a[g i := v] ! p)"
    using Cons.prems by (simp add: Cons.IH)
  also have "\<dots> = (if p \<in> g ` set (i # idx) then v else a ! p)"
    using Cons.prems by (cases "p = g i") (auto simp: nth_list_update)
  finally show ?case .
qed

lemma length_fold_update [simp]:
  "length (fold (\<lambda>x b. b[g x := h x]) xs a) = length a"
  by (induction xs arbitrary: a) simp_all

lemma fold_assign_nth_in:
  assumes "inj_on g {..<N}" and "\<forall>q<N. g q < length a" and "q < N"
  shows "fold (\<lambda>x b. b[g x := h x]) [0..<N] a ! g q = h q"
  using assms
proof (induction N)
  case 0
  then show ?case by simp
next
  case (Suc N)
  have inj: "inj_on g {..<N}"
    by (rule inj_on_subset [OF Suc.prems(1)]) auto
  have bnd: "\<forall>q<N. g q < length a" using Suc.prems(2) by simp
  show ?case
  proof (cases "q = N")
    case True
    then show ?thesis using Suc.prems(2) by simp
  next
    case False
    then have q: "q < N" using Suc.prems(3) by simp
    have "g q \<noteq> g N"
      using inj_onD [OF Suc.prems(1), of q N] q by auto
    then show ?thesis using Suc.IH [OF inj bnd q] by simp
  qed
qed

lemma fold_nested:
  "fold (\<lambda>r. fold (\<lambda>c. B (g r c)) cs) rs t = fold B (concat (map (\<lambda>r. map (g r) cs) rs)) t"
proof (induction rs arbitrary: t)
  case Nil
  show ?case by simp
next
  case (Cons r rs)
  have "fold (\<lambda>c. B (g r c)) cs t = fold B (map (g r) cs) t"
    by (simp add: fold_map o_def)
  then show ?case using Cons.IH by simp
qed

lemma fold_rows_nth:
  assumes "n < length t"
  shows "fold (\<lambda>cell t. t[cell := G cell]) cells t ! n = (if n \<in> set cells then G n else t ! n)"
  using assms
proof (induction cells arbitrary: t)
  case Nil
  show ?case by simp
next
  case (Cons c cells)
  have "n < length (t[c := G c])" using Cons.prems by simp
  from Cons.IH [OF this] show ?case using Cons.prems by (auto simp: nth_list_update)
qed

lemma length_fold_rows [simp]: "length (fold (\<lambda>cell t. t[cell := G cell]) cells t) = length t"
  by (induction cells arbitrary: t) simp_all

text \<open>The array with halo of a grid of \<open>R\<close> rows and \<open>C\<close> columns has \<open>R + 2\<close> rows and
  \<open>C + 2\<close> columns. Its interior nodes are the places of the nodes of the grid, its boundary
  nodes the frame.\<close>

lemma xrange_nat: "xrange (int a) (int a + int n) = map (\<lambda>j. int (a + j)) [0..<n]"
  by (simp add: xrange_def)

lemma xrange_0: "xrange 0 (int n) = map int [0..<n]"
  by (simp add: xrange_def)

lemma interior_rows_count:
  "nat ((int (C + 2) * (int (R + 2) - 1) - (int (C + 2) + 1) + int (C + 2) - 1) div int (C + 2)) = R"
proof -
  have "int (C + 2) * (int (R + 2) - 1) - (int (C + 2) + 1) + int (C + 2) - 1 =
        int (C + R * (C + 2))"
    by (simp add: algebra_simps)
  moreover have "(C + R * (C + 2)) div (C + 2) = R + C div (C + 2)"
    by (rule div_mult_self1) simp
  moreover have "C div (C + 2) = 0" by simp
  ultimately show ?thesis
    by (simp only: zdiv_int [symmetric] nat_int add_0_right)
qed

lemma interior_nodes_halo:
  "interior_nodes (R + 2, C + 2) = Inr (map (\<lambda>q. int (halo_interior C q)) [0..<R * C])"
proof -
  have rows: "xrange_step (int (C + 2) + 1) (int (C + 2) * (int (R + 2) - 1)) (int (C + 2)) =
      Inr (map (\<lambda>k. int ((k + 1) * (C + 2) + 1)) [0..<R])"
    unfolding xrange_step_def interior_rows_count
    by (simp add: algebra_simps)
  have row: "xrange (int ((k + 1) * (C + 2) + 1)) (int ((k + 1) * (C + 2) + 1) + (int (C + 2) - 2)) =
      map (\<lambda>j. int ((k + 1) * (C + 2) + 1 + j)) [0..<C]" for k
    using xrange_nat [of "(k + 1) * (C + 2) + 1" C] by simp
  have grid: "concat (map (\<lambda>k. map (\<lambda>j. int ((k + 1) * (C + 2) + 1 + j)) [0..<C]) [0..<R]) =
        map (\<lambda>q. int (halo_interior C q)) [0..<R * C]"
    unfolding concat_grid halo_interior_def by simp
  show ?thesis
    unfolding interior_nodes_def interior_iter_def Let_def fst_conv snd_conv rows bind_err_def
    by (simp only: sum.case map_map o_def row grid)
qed

lemma left_right_halo:
  "left_right_iter (R + 2, C + 2) [1, int (R + 2) - 1] =
     Inr (map int (concat (map (\<lambda>k. [(k + 1) * (C + 2), (k + 1) * (C + 2) + (C + 1)]) [0..<R])))"
proof -
  have cnt: "nat ((int (R + 2) - 1 - 1 + 1 - 1) div 1) = R" by simp
  have rows: "xrange_step 1 (int (R + 2) - 1) 1 = Inr (map (\<lambda>k. int (k + 1)) [0..<R])"
    unfolding xrange_step_def cnt by simp
  have pair: "[int (k + 1) * int (C + 2), int (k + 1) * int (C + 2) + int (C + 2) - 1] =
      map int [(k + 1) * (C + 2), (k + 1) * (C + 2) + (C + 1)]" for k
    by (simp add: algebra_simps)
  show ?thesis
    unfolding left_right_iter_def list.case rows bind_err_def fst_conv snd_conv
    by (simp only: sum.case map_map o_def pair map_concat)
qed

lemma top_halo:
  "top_index_iter (R + 2, C + 2) = map (\<lambda>j. int ((R + 1) * (C + 2) + j)) [0..<C + 2]"
proof -
  have "int (C + 2) * (int (R + 2) - 1) = int ((R + 1) * (C + 2))"
    by (simp add: algebra_simps)
  moreover have "int (R + 2) * int (C + 2) = int ((R + 1) * (C + 2)) + int (C + 2)"
    by (simp add: algebra_simps)
  ultimately show ?thesis
    unfolding top_index_iter_def fst_conv snd_conv
    by (simp only: xrange_nat)
qed

lemma boundary_nodes_halo:
  "boundary_nodes (R + 2, C + 2) = Inr (map int (halo_boundary R C))"
proof -
  have b: "bottom_index_iter (R + 2, C + 2) = map int [0..<C + 2]"
    unfolding bottom_index_iter_def snd_conv by (rule xrange_0)
  show ?thesis
    unfolding boundary_nodes_def boundary_iter_def fst_conv left_right_halo bind_err_def
      top_halo b halo_boundary_def
    by (simp add: o_def)
qed

lemma halo_interior_bound:
  assumes "q < R * C"
  shows "halo_interior C q < (R + 2) * (C + 2)"
proof -
  have C: "0 < C" using assms by (cases C) simp_all
  have d: "q div C < R" using assms by (simp add: less_mult_imp_div_less)
  have m: "q mod C < C" using C by simp
  have aux: "x + 1 + k < x + (C + 2)" if "k < C" for x k :: nat
    using that by simp
  have "halo_interior C q < (q div C + 1) * (C + 2) + (C + 2)"
    unfolding halo_interior_def by (rule aux [OF m])
  also have "\<dots> = (q div C + 2) * (C + 2)" by simp
  also have "\<dots> \<le> (R + 2) * (C + 2)"
    using d by (intro mult_le_mono1) simp
  finally show ?thesis .
qed

lemma halo_boundary_bound:
  assumes "p \<in> set (halo_boundary R C)"
  shows "p < (R + 2) * (C + 2)"
proof -
  have row: "k < R \<Longrightarrow> (k + 1) * (C + 2) + (C + 1) < (R + 2) * (C + 2)" for k
  proof -
    assume k: "k < R"
    have "(k + 1) * (C + 2) + (C + 1) < (k + 1) * (C + 2) + (C + 2)" by simp
    also have "\<dots> = (k + 2) * (C + 2)" by simp
    also have "\<dots> \<le> (R + 2) * (C + 2)" using k by (intro mult_le_mono1) simp
    finally show ?thesis .
  qed
  have row0: "k < R \<Longrightarrow> (k + 1) * (C + 2) < (R + 2) * (C + 2)" for k
    using row [of k] by simp
  have top: "j < C + 2 \<Longrightarrow> (R + 1) * (C + 2) + j < (R + 2) * (C + 2)" for j
    by simp
  have bot: "j < C + 2 \<Longrightarrow> j < (R + 2) * (C + 2)" for j
    by simp
  from assms consider "p < C + 2" | k where "k < R" "p = (k + 1) * (C + 2)"
    | k where "k < R" "p = (k + 1) * (C + 2) + (C + 1)"
    | j where "j < C + 2" "p = (R + 1) * (C + 2) + j"
    unfolding halo_boundary_def by auto
  then show ?thesis
    using row row0 top bot by cases auto
qed

lemma length_np_empty [simp]: "length (np_empty uninit n) = n"
  by (simp add: np_empty_def)

lemma np_pos_int [simp]: "np_pos n (int i) = i"
  by (simp add: np_pos_def)

lemma np_index_ok_int: "k < M \<Longrightarrow> np_index_ok M (int k)"
  by (simp add: np_index_ok_def)

text \<open>\<open>node_index_with_halo\<close> never fails, and nothing of the uninitialised buffer is left in
  its result: place \<open>(i, j)\<close> holds the node in row \<open>i - 1\<close> and column \<open>j - 1\<close> of the grid,
  and the sentinel on the frame.\<close>

lemma node_index_with_halo_eq:
  "node_index_with_halo uninit (R, C) h = Inr (halo_ids uninit R C h)"
proof -
  let ?M = "(R + 2) * (C + 2)"
  let ?a0 = "np_empty uninit ?M"
  let ?a1 = "fold (\<lambda>q b. b[halo_interior C q := int q]) [0..<R * C] ?a0"
  have cnt: "interior_node_count (R + 2, C + 2) = int (R * C)"
    by (simp add: interior_node_count_def)
  have ok1: "list_all (np_index_ok ?M) (map (\<lambda>q. int (halo_interior C q)) [0..<R * C])"
    using halo_interior_bound [of _ R C] by (auto simp: list_all_iff intro: np_index_ok_int)
  have f1: "fold (\<lambda>(i, v) b. b[np_pos ?M i := v])
              (zip (map (\<lambda>q. int (halo_interior C q)) [0..<R * C]) (map int [0..<R * C])) ?a0 = ?a1"
    unfolding zip_map_same fold_map by (simp add: o_def)
  have a1: "flat_assign ?a0 (map (\<lambda>q. int (halo_interior C q)) [0..<R * C]) (map int [0..<R * C]) =
      Inr ?a1"
    unfolding flat_assign_def using ok1 f1 by simp
  have len1: "length ?a1 = ?M" by simp
  have ok2: "list_all (np_index_ok ?M) (map int (halo_boundary R C))"
    using halo_boundary_bound [of _ R C] by (auto simp: list_all_iff intro: np_index_ok_int)
  have f2: "fold (\<lambda>i b. b[np_pos ?M i := h]) (map int (halo_boundary R C)) ?a1 =
      halo_ids uninit R C h"
    unfolding fold_map halo_ids_def by (simp add: o_def)
  have a2: "flat_fill ?a1 (map int (halo_boundary R C)) h = Inr (halo_ids uninit R C h)"
    unfolding flat_fill_def len1 using ok2 f2 by simp
  show ?thesis
    unfolding node_index_with_halo_def Let_def fst_conv snd_conv interior_nodes_halo
      boundary_nodes_halo bind_err_def cnt xrange_0
    by (simp only: sum.case a1 a2)
qed

lemma halo_boundary_mem:
  assumes i: "i < R + 2" and j: "j < C + 2"
  shows "i * (C + 2) + j \<in> set (halo_boundary R C) \<longleftrightarrow>
         (i = 0 \<or> i = R + 1 \<or> j = 0 \<or> j = C + 1)"
proof
  assume "i * (C + 2) + j \<in> set (halo_boundary R C)"
  then consider "i * (C + 2) + j < C + 2"
    | k where "k < R" "i * (C + 2) + j = (k + 1) * (C + 2)"
    | k where "k < R" "i * (C + 2) + j = (k + 1) * (C + 2) + (C + 1)"
    | j' where "j' < C + 2" "i * (C + 2) + j = (R + 1) * (C + 2) + j'"
    unfolding halo_boundary_def by auto
  then show "i = 0 \<or> i = R + 1 \<or> j = 0 \<or> j = C + 1"
  proof cases
    case 1
    have "i = 0"
    proof (rule ccontr)
      assume "i \<noteq> 0"
      then have "1 * (C + 2) \<le> i * (C + 2)" by (intro mult_le_mono1) simp
      with 1 show False by simp
    qed
    then show ?thesis by simp
  next
    case (2 k)
    have "i * (C + 2) + j = (k + 1) * (C + 2) + 0" using 2 by simp
    from decomp_unique [OF j _ this] show ?thesis by simp
  next
    case (3 k)
    have "C + 1 < C + 2" by simp
    from decomp_unique [OF j this 3(2)] show ?thesis by simp
  next
    case (4 j')
    from decomp_unique [OF j 4(1) 4(2)] show ?thesis by simp
  qed
next
  assume a: "i = 0 \<or> i = R + 1 \<or> j = 0 \<or> j = C + 1"
  consider "i = 0" | "i = R + 1" | "0 < i" "i < R + 1" "j = 0" | "0 < i" "i < R + 1" "j = C + 1"
    using a i by (cases "i = 0"; cases "i = R + 1") auto
  then show "i * (C + 2) + j \<in> set (halo_boundary R C)"
  proof cases
    case 1
    have e: "i * (C + 2) + j = j" using 1 by simp
    have "j \<in> set [0..<C + 2]" using j by (simp only: set_upt atLeastLessThan_iff le0 simp_thms)
    then show ?thesis unfolding halo_boundary_def set_append e by (rule UnI1)
  next
    case 2
    have "j \<in> set [0..<C + 2]" using j by (simp only: set_upt atLeastLessThan_iff le0 simp_thms)
    then have "(R + 1) * (C + 2) + j \<in> set (map (\<lambda>j. (R + 1) * (C + 2) + j) [0..<C + 2])"
      unfolding set_map by (rule imageI)
    then show ?thesis unfolding halo_boundary_def set_append 2 by (intro UnI2)
  next
    case 3
    then obtain k where k: "i = k + 1" "k < R" by (cases i) auto
    have "(k + 1) * (C + 2) \<in> set (concat (map (\<lambda>k. [(k + 1) * (C + 2), (k + 1) * (C + 2) + (C + 1)]) [0..<R]))"
      using k(2) by auto
    then show ?thesis unfolding halo_boundary_def using k(1) 3(3) by simp
  next
    case 4
    then obtain k where k: "i = k + 1" "k < R" by (cases i) auto
    have "(k + 1) * (C + 2) + (C + 1) \<in> set (concat (map (\<lambda>k. [(k + 1) * (C + 2), (k + 1) * (C + 2) + (C + 1)]) [0..<R]))"
      using k(2) by auto
    then show ?thesis unfolding halo_boundary_def using k(1) 4(3) by simp
  qed
qed

lemma halo_interior_inj: "inj_on (halo_interior C) {..<R * C}"
proof (rule inj_onI)
  fix q q' assume q: "q \<in> {..<R * C}" and q': "q' \<in> {..<R * C}"
    and e: "halo_interior C q = halo_interior C q'"
  have C: "0 < C" using q by (cases C) simp_all
  have m: "1 + q mod C < C + 2" "1 + q' mod C < C + 2"
    using mod_less_divisor [OF C, of q] mod_less_divisor [OF C, of q'] by linarith+
  have "(q div C + 1) * (C + 2) + (1 + q mod C) = (q' div C + 1) * (C + 2) + (1 + q' mod C)"
    using e unfolding halo_interior_def by (simp only: add.assoc)
  from decomp_unique [OF m this] have "q div C = q' div C" "q mod C = q' mod C" by simp_all
  then show "q = q'" by (metis div_mult_mod_eq)
qed

lemma halo_interior_cell:
  assumes "r < R" "c < C"
  shows "halo_interior C (r * C + c) = (r + 1) * (C + 2) + (c + 1)"
    and "r * C + c < R * C"
proof -
  have "(r * C + c) div C = r" "(r * C + c) mod C = c" using assms(2) by simp_all
  then show "halo_interior C (r * C + c) = (r + 1) * (C + 2) + (c + 1)"
    unfolding halo_interior_def by simp
  have "r * C + c < r * C + C" using assms(2) by simp
  also have "\<dots> = (r + 1) * C" by simp
  also have "\<dots> \<le> R * C" using assms(1) by (intro mult_le_mono1) simp
  finally show "r * C + c < R * C" .
qed

lemma length_halo_ids [simp]: "length (halo_ids uninit R C h) = (R + 2) * (C + 2)"
  unfolding halo_ids_def by simp

lemma halo_ids_nth:
  assumes i: "i < R + 2" and j: "j < C + 2"
  shows "halo_ids uninit R C h ! (i * (C + 2) + j) =
         (if 1 \<le> i \<and> i \<le> R \<and> 1 \<le> j \<and> j \<le> C then int ((i - 1) * C + (j - 1)) else h)"
proof -
  let ?M = "(R + 2) * (C + 2)"
  let ?p = "i * (C + 2) + j"
  let ?a1 = "fold (\<lambda>q b. b[halo_interior C q := int q]) [0..<R * C] (np_empty uninit ?M)"
  have p: "?p < ?M"
  proof -
    have "?p < i * (C + 2) + (C + 2)" using j by simp
    also have "\<dots> = (i + 1) * (C + 2)" by simp
    also have "\<dots> \<le> ?M" using i by (intro mult_le_mono1) simp
    finally show ?thesis .
  qed
  have len: "?p < length ?a1" using p by simp
  have fill: "halo_ids uninit R C h ! ?p = (if ?p \<in> set (halo_boundary R C) then h else ?a1 ! ?p)"
    unfolding halo_ids_def using fold_fill_nth [of ?p ?a1 "\<lambda>i. i" h "halo_boundary R C"] len
    by simp
  show ?thesis
  proof (cases "1 \<le> i \<and> i \<le> R \<and> 1 \<le> j \<and> j \<le> C")
    case False
    then have "i = 0 \<or> i = R + 1 \<or> j = 0 \<or> j = C + 1"
      using i j by auto
    then have "?p \<in> set (halo_boundary R C)"
      using halo_boundary_mem [OF i j] by blast
    with fill have "halo_ids uninit R C h ! ?p = h" by (simp only: if_True)
    then show ?thesis using False by (simp only: if_False)
  next
    case True
    then obtain r c where rc: "i = r + 1" "j = c + 1" "r < R" "c < C"
      by (cases i; cases j) auto
    let ?q = "r * C + c"
    have "\<not> (i = 0 \<or> i = R + 1 \<or> j = 0 \<or> j = C + 1)"
      using True by auto
    then have nb: "?p \<notin> set (halo_boundary R C)"
      using halo_boundary_mem [OF i j] by blast
    have pq: "?p = halo_interior C ?q" using halo_interior_cell(1) [OF rc(3,4)] rc(1,2) by simp
    have q: "?q < R * C" by (rule halo_interior_cell(2) [OF rc(3,4)])
    have bnd: "\<forall>q<R * C. halo_interior C q < length (np_empty uninit ?M)"
      using halo_interior_bound [of _ R C] by simp
    have "?a1 ! halo_interior C ?q = int ?q"
      by (rule fold_assign_nth_in [OF halo_interior_inj bnd q])
    then have "?a1 ! ?p = int ?q" using pq by (simp only:)
    with fill nb have "halo_ids uninit R C h ! ?p = int ?q" by (simp only: if_False)
    moreover have "int ((i - 1) * C + (j - 1)) = int ?q" using rc(1,2) by simp
    ultimately show ?thesis using True by (simp only: if_True simp_thms)
  qed
qed

lemma halo_ids_node_at:
  assumes i: "i < R + 2" and j: "j < C + 2"
  shows "halo_ids uninit R C h ! (i * (C + 2) + j) = node_at (R, C) h (int i - 1) (int j - 1)"
proof (cases "1 \<le> i \<and> i \<le> R \<and> 1 \<le> j \<and> j \<le> C")
  case True
  then obtain r c where rc: "i = r + 1" "j = c + 1" "r < R" "c < C"
    by (cases i; cases j) auto
  have "halo_ids uninit R C h ! (i * (C + 2) + j) = int ((i - 1) * C + (j - 1))"
    using halo_ids_nth [OF i j, of uninit h] True by (simp only: if_True simp_thms)
  also have "\<dots> = int r * int C + int c" using rc(1,2) by simp
  also have "\<dots> = node_at (R, C) h (int i - 1) (int j - 1)"
    unfolding node_at_def using rc by simp
  finally show ?thesis .
next
  case False
  have "halo_ids uninit R C h ! (i * (C + 2) + j) = h"
    using halo_ids_nth [OF i j, of uninit h] False by (simp only: if_False)
  also have "\<dots> = node_at (R, C) h (int i - 1) (int j - 1)"
    unfolding node_at_def using False by auto
  finally show ?thesis .
qed

text \<open>The four slices of \<open>diagonal_array\<close> shift the array with halo by \<open>(0, 0)\<close>,
  \<open>(0, 2)\<close>, \<open>(2, 2)\<close> and \<open>(2, 0)\<close>.\<close>

lemma slice2_shift:
  "slice2 flat ncols (r0, R + r0) (c0, C + c0) =
     map (\<lambda>q. flat ! ((r0 + q div C) * ncols + (c0 + q mod C))) [0..<R * C]"
proof -
  have "slice2 flat ncols (r0, R + r0) (c0, C + c0) =
      concat (map (\<lambda>k. map (\<lambda>j. flat ! ((r0 + k) * ncols + (c0 + j))) [0..<C]) [0..<R])"
    unfolding slice2_def fst_conv snd_conv upt_shift map_map o_def ..
  also have "\<dots> = map (\<lambda>q. flat ! ((r0 + q div C) * ncols + (c0 + q mod C))) [0..<R * C]"
    by (rule concat_grid)
  finally show ?thesis .
qed

lemma slice2_halo_nth:
  assumes r: "r < R" and c: "c < C" and r0: "r0 \<le> 2" and c0: "c0 \<le> 2"
  shows "slice2 (halo_ids uninit R C h) (C + 2) (r0, R + r0) (c0, C + c0) ! (r * C + c) =
         node_at (R, C) h (int r + int r0 - 1) (int c + int c0 - 1)"
proof -
  have n: "r * C + c < R * C" by (rule cell_bound [OF r c])
  have i: "r0 + r < R + 2" using r r0 by simp
  have j: "c0 + c < C + 2" using c c0 by simp
  have "slice2 (halo_ids uninit R C h) (C + 2) (r0, R + r0) (c0, C + c0) ! (r * C + c) =
        halo_ids uninit R C h ! ((r0 + r) * (C + 2) + (c0 + c))"
    unfolding slice2_shift using n by (simp only: nth_map length_upt diff_zero nth_upt add_0
        cell_div_mod [OF c])
  also have "\<dots> = node_at (R, C) h (int (r0 + r) - 1) (int (c0 + c) - 1)"
    by (rule halo_ids_node_at [OF i j])
  also have "\<dots> = node_at (R, C) h (int r + int r0 - 1) (int c + int c0 - 1)"
    by (simp add: add.commute)
  finally show ?thesis .
qed

lemma length_slice2_halo:
  "length (slice2 flat ncols (r0, R + r0) (c0, C + c0)) = R * C"
  unfolding slice2_shift by simp

lemma diagonal_array_eq:
  "diagonal_array uninit (R, C) h =
     Inr (vstack4_T
            (slice2 (halo_ids uninit R C h) (C + 2) (0, R + 0) (0, C + 0))
            (slice2 (halo_ids uninit R C h) (C + 2) (0, R + 0) (2, C + 2))
            (slice2 (halo_ids uninit R C h) (C + 2) (2, R + 2) (2, C + 2))
            (slice2 (halo_ids uninit R C h) (C + 2) (2, R + 2) (0, C + 0)))"
  unfolding diagonal_array_def node_index_with_halo_eq bind_err_def
  by (simp add: Let_def)

lemma diagonal_array_rows_fast:
  "\<exists>t. diagonal_array uninit (R, C) h = Inr t \<and> length t = R * C \<and>
     (\<forall>r<R. \<forall>c<C. t ! (r * C + c) =
        [node_at (R, C) h (int r - 1) (int c - 1), node_at (R, C) h (int r - 1) (int c + 1),
         node_at (R, C) h (int r + 1) (int c + 1), node_at (R, C) h (int r + 1) (int c - 1)])"
proof -
  let ?ids = "halo_ids uninit R C h"
  let ?a = "slice2 ?ids (C + 2) (0, R + 0) (0, C + 0)"
  let ?b = "slice2 ?ids (C + 2) (0, R + 0) (2, C + 2)"
  let ?c = "slice2 ?ids (C + 2) (2, R + 2) (2, C + 2)"
  let ?d = "slice2 ?ids (C + 2) (2, R + 2) (0, C + 0)"
  let ?t = "vstack4_T ?a ?b ?c ?d"
  have len: "length ?t = R * C"
    unfolding vstack4_T_def length_map length_upt length_slice2_halo by simp
  have row: "?t ! (r * C + c) =
        [node_at (R, C) h (int r - 1) (int c - 1), node_at (R, C) h (int r - 1) (int c + 1),
         node_at (R, C) h (int r + 1) (int c + 1), node_at (R, C) h (int r + 1) (int c - 1)]"
    if r: "r < R" and c: "c < C" for r c
  proof -
    have n: "r * C + c < R * C" by (rule cell_bound [OF r c])
    have "?t ! (r * C + c) = [?a ! (r * C + c), ?b ! (r * C + c), ?c ! (r * C + c), ?d ! (r * C + c)]"
      unfolding vstack4_T_def length_slice2_halo using n by simp
    also have "?a ! (r * C + c) = node_at (R, C) h (int r - 1) (int c - 1)"
      using slice2_halo_nth [OF r c, of 0 0 uninit h] by (simp add: algebra_simps)
    also have "?b ! (r * C + c) = node_at (R, C) h (int r - 1) (int c + 1)"
      using slice2_halo_nth [OF r c, of 0 2 uninit h] by (simp add: algebra_simps)
    also have "?c ! (r * C + c) = node_at (R, C) h (int r + 1) (int c + 1)"
      using slice2_halo_nth [OF r c, of 2 2 uninit h] by (simp add: algebra_simps)
    also have "?d ! (r * C + c) = node_at (R, C) h (int r + 1) (int c - 1)"
      using slice2_halo_nth [OF r c, of 2 0 uninit h] by (simp add: algebra_simps)
    finally show ?thesis .
  qed
  show ?thesis
    unfolding diagonal_array_eq using len row by blast
qed

text \<open>\<open>diagonal_array_slow\<close> writes the row \<open>slow_row\<close> at the cells its loops visit, which
  are the interior nodes, and leaves the other rows as they start.\<close>

lemma set_item2_beyond: "length t \<le> i \<Longrightarrow> set_item2 t i k v = t"
  unfolding set_item2_def by (rule list_update_beyond)

lemma set_item2_again: "i < length t \<Longrightarrow> set_item2 (t[i := x]) i k v = t[i := x[k := v]]"
  unfolding set_item2_def by simp

lemma slow_cell_eq:
  assumes "\<forall>n<length t. length (t ! n) = 4"
  shows "slow_cell ncols t n = t[n := slow_row ncols n]"
proof (cases "n < length t")
  case False
  then have "length t \<le> n" by simp
  then show ?thesis
    unfolding slow_cell_def Let_def by (simp only: set_item2_beyond list_update_beyond)
next
  case True
  then obtain p q r s where row: "t ! n = [p, q, r, s]"
    using assms by (auto simp: length_Suc_conv numeral_eq_Suc)
  have "set_item2 t n 2 a = t[n := [p, q, a, s]]" for a
    unfolding set_item2_def row by (simp add: numeral_eq_Suc)
  then show ?thesis
    unfolding slow_cell_def Let_def slow_row_def using True
    by (simp add: set_item2_again numeral_eq_Suc)
qed

lemma fold_slow_cell:
  assumes "\<forall>n<length t. length (t ! n) = 4"
  shows "fold (\<lambda>cell t. slow_cell ncols t cell) cells t =
         fold (\<lambda>cell t. t[cell := slow_row ncols cell]) cells t"
  using assms
proof (induction cells arbitrary: t)
  case Nil
  show ?case by simp
next
  case (Cons c cells)
  have inv: "\<forall>n<length (t[c := slow_row ncols c]). length (t[c := slow_row ncols c] ! n) = 4"
  proof (intro allI impI)
    fix n assume "n < length (t[c := slow_row ncols c])"
    then have n: "n < length t" by simp
    have "length (slow_row ncols c) = 4" by (simp add: slow_row_def)
    then show "length (t[c := slow_row ncols c] ! n) = 4"
      using n Cons.prems by (cases "n = c") simp_all
  qed
  show ?case
    using Cons.IH [OF inv] by (simp add: slow_cell_eq [OF Cons.prems])
qed

lemma diagonal_array_slow_eq:
  "diagonal_array_slow (R, C) h =
     fold (\<lambda>cell t. t[cell := slow_row C cell]) (interior_cells R C)
       (replicate (R * C) [- 1, - 1, - 1, - 1])"
proof -
  let ?t0 = "replicate (R * C) [- 1, - 1, - 1, - 1 :: int]"
  have inv: "\<forall>n<length ?t0. length (?t0 ! n) = 4" by simp
  have "diagonal_array_slow (R, C) h =
      fold (\<lambda>r. fold (\<lambda>c t. slow_cell C t (r * C + c)) [1..<C - 1]) [1..<R - 1] ?t0"
    unfolding diagonal_array_slow_def slow_cell_def Let_def fst_conv snd_conv ..
  also have "\<dots> = fold (\<lambda>cell t. slow_cell C t cell) (interior_cells R C) ?t0"
    unfolding interior_cells_def
    by (rule fold_nested [of "\<lambda>cell t. slow_cell C t cell" "\<lambda>r c. r * C + c"])
  also have "\<dots> = fold (\<lambda>cell t. t[cell := slow_row C cell]) (interior_cells R C) ?t0"
    by (rule fold_slow_cell [OF inv])
  finally show ?thesis .
qed

lemma interior_cells_mem:
  assumes c: "c < C"
  shows "r * C + c \<in> set (interior_cells R C) \<longleftrightarrow> is_interior (R, C) r c"
proof -
  have cells: "set (interior_cells R C) = (\<Union>r'\<in>{1..<R - 1}. (\<lambda>c'. r' * C + c') ` {1..<C - 1})"
    unfolding interior_cells_def by (simp only: set_concat set_map set_upt image_image)
  show ?thesis
  proof
    assume "r * C + c \<in> set (interior_cells R C)"
    then obtain r' c' where "r' \<in> {1..<R - 1}" "c' \<in> {1..<C - 1}" "r * C + c = r' * C + c'"
      unfolding cells by blast
    then have m: "1 \<le> r'" "r' < R - 1" "1 \<le> c'" "c' < C - 1" "r * C + c = r' * C + c'"
      by simp_all
    have "c' < C" using m(4) by simp
    from decomp_unique [OF c this m(5)] have "r = r'" "c = c'" by simp_all
    then show "is_interior (R, C) r c" unfolding is_interior_def using m by auto
  next
    assume "is_interior (R, C) r c"
    then have "r \<in> {1..<R - 1}" "c \<in> {1..<C - 1}"
      unfolding is_interior_def by auto
    then show "r * C + c \<in> set (interior_cells R C)"
      unfolding cells by blast
  qed
qed

lemma slow_row_node_at:
  assumes "is_interior (R, C) r c"
  shows "slow_row C (r * C + c) =
     [node_at (R, C) h (int r + 1) (int c + 1), node_at (R, C) h (int r + 1) (int c - 1),
      node_at (R, C) h (int r - 1) (int c - 1), node_at (R, C) h (int r - 1) (int c + 1)]"
  using assms unfolding is_interior_def slow_row_def node_at_def
  by (simp add: algebra_simps)

lemma diagonal_array_slow_rows:
  "length (diagonal_array_slow (R, C) h) = R * C"
  "r < R \<Longrightarrow> c < C \<Longrightarrow> diagonal_array_slow (R, C) h ! (r * C + c) =
     (if is_interior (R, C) r c
      then [node_at (R, C) h (int r + 1) (int c + 1), node_at (R, C) h (int r + 1) (int c - 1),
            node_at (R, C) h (int r - 1) (int c - 1), node_at (R, C) h (int r - 1) (int c + 1)]
      else [- 1, - 1, - 1, - 1])"
proof -
  show "length (diagonal_array_slow (R, C) h) = R * C"
    unfolding diagonal_array_slow_eq by simp
  assume r: "r < R" and c: "c < C"
  have n: "r * C + c < R * C" by (rule cell_bound [OF r c])
  then have n': "r * C + c < length (replicate (R * C) [- 1, - 1, - 1, - 1 :: int])" by simp
  show "diagonal_array_slow (R, C) h ! (r * C + c) =
     (if is_interior (R, C) r c
      then [node_at (R, C) h (int r + 1) (int c + 1), node_at (R, C) h (int r + 1) (int c - 1),
            node_at (R, C) h (int r - 1) (int c - 1), node_at (R, C) h (int r - 1) (int c + 1)]
      else [- 1, - 1, - 1, - 1])"
  proof (cases "is_interior (R, C) r c")
    case True
    show ?thesis
      unfolding diagonal_array_slow_eq fold_rows_nth [OF n'] interior_cells_mem [OF c]
      using True slow_row_node_at [OF True, of h] by (simp only: if_True)
  next
    case False
    show ?thesis
      unfolding diagonal_array_slow_eq fold_rows_nth [OF n'] interior_cells_mem [OF c]
      using False n by (simp only: if_False nth_replicate)
  qed
qed

text \<open>Every row of the two tables, for every shape, sentinel and content of the
  uninitialised buffer. For the node in row \<open>r\<close> and column \<open>c\<close>, the row of
  \<open>diagonal_array\<close> holds the nodes at \<open>(r - 1, c - 1)\<close>, \<open>(r - 1, c + 1)\<close>, \<open>(r + 1, c + 1)\<close>
  and \<open>(r + 1, c - 1)\<close> in this order, with the sentinel for a place outside the grid only.
  The row of \<open>diagonal_array_slow\<close> holds the nodes at \<open>(r + 1, c + 1)\<close>, \<open>(r + 1, c - 1)\<close>,
  \<open>(r - 1, c - 1)\<close> and \<open>(r - 1, c + 1)\<close> (top right, top left, bottom left, bottom right, rows
  counted upward: the order the docstring of \<open>diagonal_array\<close> names) when the node is
  interior, and four times \<open>-1\<close> when it is on the edge.\<close>

lemma diagonal_array_rows:
  "\<exists>t. diagonal_array uninit (R, C) h = Inr t \<and> length t = R * C \<and>
     length (diagonal_array_slow (R, C) h) = R * C \<and>
     (\<forall>r<R. \<forall>c<C.
        t ! (r * C + c) =
          [node_at (R, C) h (int r - 1) (int c - 1), node_at (R, C) h (int r - 1) (int c + 1),
           node_at (R, C) h (int r + 1) (int c + 1), node_at (R, C) h (int r + 1) (int c - 1)] \<and>
        diagonal_array_slow (R, C) h ! (r * C + c) =
          (if is_interior (R, C) r c
           then [node_at (R, C) h (int r + 1) (int c + 1), node_at (R, C) h (int r + 1) (int c - 1),
                 node_at (R, C) h (int r - 1) (int c - 1), node_at (R, C) h (int r - 1) (int c + 1)]
           else [- 1, - 1, - 1, - 1]))"
proof -
  from diagonal_array_rows_fast [of uninit R C h] obtain t where
    t: "diagonal_array uninit (R, C) h = Inr t" "length t = R * C"
    and rows: "\<And>r c. r < R \<Longrightarrow> c < C \<Longrightarrow> t ! (r * C + c) =
        [node_at (R, C) h (int r - 1) (int c - 1), node_at (R, C) h (int r - 1) (int c + 1),
         node_at (R, C) h (int r + 1) (int c + 1), node_at (R, C) h (int r + 1) (int c - 1)]"
    by blast
  show ?thesis
    using t rows diagonal_array_slow_rows(1) [of R C h] diagonal_array_slow_rows(2) [of _ R _ C h]
    by blast
qed

text \<open>With the sentinel \<open>-1\<close> the two tables are equal exactly on the grids of fewer than two
  rows or fewer than two columns, where no node has a diagonal neighbor.\<close>

lemma diagonal_array_eq_slow_iff:
  "diagonal_array uninit (R, C) (- 1) = Inr (diagonal_array_slow (R, C) (- 1)) \<longleftrightarrow> R < 2 \<or> C < 2"
proof -
  from diagonal_array_rows_fast [of uninit R C "- 1"] obtain t where
    t: "diagonal_array uninit (R, C) (- 1) = Inr t" and len: "length t = R * C"
    and rows: "\<And>r c. r < R \<Longrightarrow> c < C \<Longrightarrow> t ! (r * C + c) =
        [node_at (R, C) (- 1) (int r - 1) (int c - 1), node_at (R, C) (- 1) (int r - 1) (int c + 1),
         node_at (R, C) (- 1) (int r + 1) (int c + 1), node_at (R, C) (- 1) (int r + 1) (int c - 1)]"
    by blast
  let ?s = "diagonal_array_slow (R, C) (- 1)"
  have slen: "length ?s = R * C" by (rule diagonal_array_slow_rows(1))
  show ?thesis
  proof (cases "R < 2 \<or> C < 2")
    case True
    have "t = ?s"
    proof (rule nth_equalityI)
      show "length t = length ?s" using len slen by simp
    next
      fix n assume "n < length t"
      then have n: "n < R * C" using len by simp
      then have C: "0 < C" by (cases C) simp_all
      define r c where "r = n div C" and "c = n mod C"
      have c: "c < C" using C by (simp add: c_def)
      have r: "r < R" using n by (simp add: r_def less_mult_imp_div_less)
      have e: "n = r * C + c" by (simp add: r_def c_def)
      have ni: "\<not> is_interior (R, C) r c"
        using True by (auto simp: is_interior_def)
      have out: "node_at (R, C) (- 1) (int r - 1) (int c - 1) = - 1"
          "node_at (R, C) (- 1) (int r - 1) (int c + 1) = - 1"
          "node_at (R, C) (- 1) (int r + 1) (int c + 1) = - 1"
          "node_at (R, C) (- 1) (int r + 1) (int c - 1) = - 1"
        using True r c by (auto simp: node_at_def)
      show "t ! n = ?s ! n"
        unfolding e rows [OF r c] diagonal_array_slow_rows(2) [OF r c] out using ni by simp
    qed
    then show ?thesis using t True by simp
  next
    case False
    then have R: "0 < R" "1 < R" and C: "0 < C" "1 < C" by simp_all
    have "t ! (0 * C + 0) ! 2 = int C + 1"
      unfolding rows [OF R(1) C(1)] using R C by (simp add: node_at_def)
    moreover have "?s ! (0 * C + 0) ! 2 = - 1"
      unfolding diagonal_array_slow_rows(2) [OF R(1) C(1)] by (simp add: is_interior_def)
    ultimately have "t \<noteq> ?s" by auto
    then show ?thesis using t False by simp
  qed
qed

text \<open>The doctest of \<open>diagonal_array\<close> in the sources.\<close>

lemma diagonal_array_doctest:
  "diagonal_array [] (2, 3) (- 1) =
     Inr [[- 1, - 1, 4, - 1], [- 1, - 1, 5, 3], [- 1, - 1, - 1, 4],
          [- 1, 1, - 1, - 1], [0, 2, - 1, - 1], [1, - 1, - 1, - 1]]"
  by code_simp

text \<open>
  Claim C10 (for every shape, \<open>diagonal_array(shape, -1)\<close> returns the table of
  \<open>diagonal_array_slow(shape, -1)\<close>, the row of an interior node in the order top right, top
  left, bottom left, bottom right and the row of a boundary node of \<open>-1\<close> only) fails on the
  code. On the 3 by 3 grid the interior node 4 has the row \<open>[0, 2, 8, 6]\<close> in the table of
  \<open>diagonal_array\<close> (bottom left, bottom right, top right, top left) and \<open>[8, 6, 0, 2]\<close> in the
  table of \<open>diagonal_array_slow\<close>, and the rows of the edge nodes of the first table hold the
  ids of their diagonal neighbors in the grid. The order and the rows of \<open>-1\<close> that the
  docstring of \<open>diagonal_array\<close> names are those of \<open>diagonal_array_slow\<close>.
\<close>

theorem diagonal_array_differs:
  "diagonal_array [] (3, 3) (- 1) =
     Inr [[- 1, - 1, 4, - 1], [- 1, - 1, 5, 3], [- 1, - 1, - 1, 4],
          [- 1, 1, 7, - 1], [0, 2, 8, 6], [1, - 1, - 1, 7],
          [- 1, 4, - 1, - 1], [3, 5, - 1, - 1], [4, - 1, - 1, - 1]] \<and>
   diagonal_array_slow (3, 3) (- 1) =
     [[- 1, - 1, - 1, - 1], [- 1, - 1, - 1, - 1], [- 1, - 1, - 1, - 1],
      [- 1, - 1, - 1, - 1], [8, 6, 0, 2], [- 1, - 1, - 1, - 1],
      [- 1, - 1, - 1, - 1], [- 1, - 1, - 1, - 1], [- 1, - 1, - 1, - 1]] \<and>
   diagonal_array [] (3, 3) (- 1) \<noteq> Inr (diagonal_array_slow (3, 3) (- 1))"
  by code_simp

end
